theory Spec2Isabelle
  imports Main "HOL-Library.Word" "HOL-Library.Product_Lexorder"
begin

section \<open>Machine types\<close>

text \<open>
  Identifiers are Go \<open>uint64\<close>, the cursor's \<open>UpdatedUnix\<close> and the page size are signed
  64-bit integers (\<open>int64\<close>, and \<open>int\<close> on the 64-bit targets the service is built for):
  all are 64-bit words, read with \<open>unat\<close> or \<open>sint\<close>. A \<open>time.Time\<close> is modelled by the
  number of nanoseconds since the Unix epoch.
\<close>

type_synonym u64 = "64 word"
type_synonym i64 = "64 word"
type_synonym time = int

text \<open>\<open>Time.UnixMilli\<close>: milliseconds since the epoch, rounded down, as an \<open>int64\<close>.\<close>

definition UnixMilli :: "time \<Rightarrow> i64" where
  "UnixMilli t = word_of_int (t div 1000000)"

text \<open>\<open>time.UnixMilli(msec)\<close>: the time that many milliseconds after the epoch.\<close>

definition time_UnixMilli :: "i64 \<Rightarrow> time" where
  "time_UnixMilli ms = sint ms * 1000000"

section \<open>Library model: strconv\<close>

definition is_digit :: "char \<Rightarrow> bool" where
  "is_digit c = (48 \<le> (of_char c :: nat) \<and> (of_char c :: nat) \<le> 57)"

definition digit_val :: "char \<Rightarrow> nat" where
  "digit_val c = of_char c - 48"

definition digit_char :: "nat \<Rightarrow> char" where
  "digit_char d = char_of (48 + d)"

text \<open>Decimal digits of a natural number, most significant first, \<open>''0''\<close> for zero.\<close>

fun digits_of :: "nat \<Rightarrow> string" where
  "digits_of n = (if n < 10 then [digit_char n] else digits_of (n div 10) @ [digit_char (n mod 10)])"

declare digits_of.simps [simp del]

definition digits_val :: "string \<Rightarrow> nat" where
  "digits_val s = foldl (\<lambda>acc c. 10 * acc + digit_val c) 0 s"

text \<open>\<open>strconv.FormatUint(n, 10)\<close> and \<open>strconv.FormatInt(n, 10)\<close>.\<close>

definition FormatUint :: "u64 \<Rightarrow> string" where
  "FormatUint n = digits_of (unat n)"

definition FormatInt :: "i64 \<Rightarrow> string" where
  "FormatInt n = (if sint n < 0 then CHR ''-'' # digits_of (nat (- sint n)) else digits_of (nat (sint n)))"

text \<open>
  \<open>strconv.ParseUint(s, 10, 64)\<close>: a non-empty string of decimal digits, no sign, whose
  value fits 64 bits; anything else is an error.
\<close>

definition ParseUint :: "string \<Rightarrow> u64 option" where
  "ParseUint s =
     (if s = [] \<or> \<not> list_all is_digit s then None
      else if digits_val s < 2 ^ 64 then Some (of_nat (digits_val s)) else None)"

text \<open>\<open>strconv.ParseInt(s, 10, 64)\<close>: an optional sign, then digits; the value must fit \<open>int64\<close>.\<close>

definition ParseInt :: "string \<Rightarrow> i64 option" where
  "ParseInt s =
     (case s of
        [] \<Rightarrow> None
      | c # r \<Rightarrow>
          (let neg = (c = CHR ''-'');
               ds = (if c = CHR ''-'' \<or> c = CHR ''+'' then r else s)
           in if ds = [] \<or> \<not> list_all is_digit ds then None
              else if neg then (if digits_val ds \<le> 2 ^ 63 then Some (word_of_int (- int (digits_val ds))) else None)
              else (if digits_val ds < 2 ^ 63 then Some (of_nat (digits_val ds)) else None)))"

section \<open>Library model: encoding/base64, URLEncoding\<close>

text \<open>The URL-safe alphabet with \<open>=\<close> padding; the decoder is not in strict mode.\<close>

definition encodeURL :: string where
  "encodeURL = ''ABCDEFGHIJKLMNOPQRSTUVWXYZabcdefghijklmnopqrstuvwxyz0123456789-_''"

definition b64_char :: "nat \<Rightarrow> char" where
  "b64_char i = encodeURL ! i"

definition padChar :: char where
  "padChar = CHR ''=''"

fun EncodeToString :: "string \<Rightarrow> string" where
  "EncodeToString (a # b # c # rest) =
     (let val = (of_char a * 65536 + of_char b * 256 + of_char c :: nat)
      in b64_char (val div 262144 mod 64) # b64_char (val div 4096 mod 64) #
         b64_char (val div 64 mod 64) # b64_char (val mod 64) # EncodeToString rest)"
| "EncodeToString [a, b] =
     (let val = (of_char a * 65536 + of_char b * 256 :: nat)
      in [b64_char (val div 262144 mod 64), b64_char (val div 4096 mod 64),
          b64_char (val div 64 mod 64), padChar])"
| "EncodeToString [a] =
     (let val = (of_char a * 65536 :: nat)
      in [b64_char (val div 262144 mod 64), b64_char (val div 4096 mod 64), padChar, padChar])"
| "EncodeToString [] = []"

text \<open>The decode table: the position of a character in the alphabet, if it has one.\<close>

fun index_from :: "nat \<Rightarrow> char \<Rightarrow> string \<Rightarrow> nat option" where
  "index_from i c [] = None"
| "index_from i c (x # xs) = (if x = c then Some i else index_from (i + 1) c xs)"

definition decodeMap :: "char \<Rightarrow> nat option" where
  "decodeMap c = index_from 0 c encodeURL"

definition decodeQuantum :: "char list \<Rightarrow> nat \<Rightarrow> string option" where
  "decodeQuantum cs dlen =
     (case those (map decodeMap cs) of
        None \<Rightarrow> None
      | Some vs \<Rightarrow>
          (let val = foldl (\<lambda>acc v. acc * 64 + v) 0 vs * 64 ^ (4 - length vs)
           in Some (take (dlen - 1) [char_of (val div 65536), char_of (val div 256), char_of val])))"

text \<open>
  Quanta of four characters; only the last one may end in padding, \<open>xx==\<close> for one byte or
  \<open>xxx=\<close> for two. The bits of a padded quantum that belong to no byte are not checked.
\<close>

fun decode_quanta :: "string \<Rightarrow> string option" where
  "decode_quanta [] = Some []"
| "decode_quanta [a, b, c, d] =
     (if c = padChar then (if d = padChar then decodeQuantum [a, b] 2 else None)
      else if d = padChar then decodeQuantum [a, b, c] 3
      else decodeQuantum [a, b, c, d] 4)"
| "decode_quanta (a # b # c # d # rest) =
     (case decodeQuantum [a, b, c, d] 4 of
        None \<Rightarrow> None
      | Some bs \<Rightarrow> (case decode_quanta rest of None \<Rightarrow> None | Some bs' \<Rightarrow> Some (bs @ bs')))"
| "decode_quanta _ = None"

text \<open>\<open>DecodeString\<close> ignores carriage returns and line feeds; \<open>None\<close> is \<open>CorruptInputError\<close>.\<close>

definition DecodeString :: "string \<Rightarrow> string option" where
  "DecodeString s = decode_quanta (filter (\<lambda>c. c \<noteq> CHR 0x0D \<and> c \<noteq> CHR 0x0A) s)"

section \<open>Library model: encoding/json\<close>

text \<open>
  \<open>json.Unmarshal\<close> first checks that the whole input is one JSON text and then decodes it.
  The model parses the input into a tree and decodes the tree. String contents with bytes
  above \<open>0x7F\<close> are kept as they are (the library replaces ill-formed UTF-8 by U+FFFD):
  strings matter to a \<open>Cursor\<close> only as member names, and the names of its fields are ASCII.
\<close>

datatype json =
    JNull
  | JBool bool
  | JNumber string
  | JString string
  | JArray "json list"
  | JObject "(string \<times> json) list"

definition is_space :: "char \<Rightarrow> bool" where
  "is_space c = (c = CHR '' '' \<or> c = CHR 0x09 \<or> c = CHR 0x0D \<or> c = CHR 0x0A)"

definition skip_space :: "string \<Rightarrow> string" where
  "skip_space s = dropWhile is_space s"

definition is_hex :: "char \<Rightarrow> bool" where
  "is_hex c = (is_digit c \<or> (97 \<le> (of_char c :: nat) \<and> (of_char c :: nat) \<le> 102)
                 \<or> (65 \<le> (of_char c :: nat) \<and> (of_char c :: nat) \<le> 70))"

definition hex_val :: "char \<Rightarrow> nat" where
  "hex_val c = (if is_digit c then of_char c - 48
                else if 97 \<le> (of_char c :: nat) then of_char c - 87 else of_char c - 55)"

text \<open>\<open>getu4\<close>: the value of four hexadecimal digits, \<open>None\<close> unless all four are.\<close>

definition getu4 :: "string \<Rightarrow> nat option" where
  "getu4 s =
     (if length s = 4 \<and> list_all is_hex s
      then Some (foldl (\<lambda>acc c. acc * 16 + hex_val c) 0 s) else None)"

text \<open>\<open>utf8.EncodeRune\<close> for a code point below \<open>0x110000\<close> that is no surrogate.\<close>

definition EncodeRune :: "nat \<Rightarrow> string" where
  "EncodeRune r =
     (if r < 128 then [char_of r]
      else if r < 2048 then [char_of (192 + r div 64), char_of (128 + r mod 64)]
      else if r < 65536 then
        [char_of (224 + r div 4096), char_of (128 + r div 64 mod 64), char_of (128 + r mod 64)]
      else
        [char_of (240 + r div 262144), char_of (128 + r div 4096 mod 64),
         char_of (128 + r div 64 mod 64), char_of (128 + r mod 64)])"

definition ReplacementChar :: nat where
  "ReplacementChar = 65533"

definition IsSurrogate :: "nat \<Rightarrow> bool" where
  "IsSurrogate r = (55296 \<le> r \<and> r < 57344)"

text \<open>\<open>utf16.DecodeRune\<close>: a high and a low surrogate make one code point.\<close>

definition utf16_DecodeRune :: "nat \<Rightarrow> nat \<Rightarrow> nat" where
  "utf16_DecodeRune r1 r2 =
     (if 55296 \<le> r1 \<and> r1 < 56320 \<and> 56320 \<le> r2 \<and> r2 < 57344
      then (r1 - 55296) * 1024 + (r2 - 56320) + 65536 else ReplacementChar)"

text \<open>The character a one-letter escape stands for.\<close>

definition unescape :: "char \<Rightarrow> char option" where
  "unescape e =
     (if e = CHR 0x22 \<or> e = CHR 0x5C \<or> e = CHR ''/'' then Some e
      else if e = CHR ''b'' then Some (CHR 0x08)
      else if e = CHR ''f'' then Some (CHR 0x0C)
      else if e = CHR ''n'' then Some (CHR 0x0A)
      else if e = CHR ''r'' then Some (CHR 0x0D)
      else if e = CHR ''t'' then Some (CHR 0x09)
      else None)"

text \<open>
  The input after \<open>\u\<close>: four hexadecimal digits; a surrogate followed by an escaped low
  surrogate is one code point, a surrogate alone the replacement character. The result is
  the UTF-8 bytes and the number of characters read.
\<close>

definition scan_u4 :: "string \<Rightarrow> (string \<times> nat) option" where
  "scan_u4 s =
     (case getu4 (take 4 s) of
        None \<Rightarrow> None
      | Some rr \<Rightarrow>
          (if IsSurrogate rr then
             (case (if take 2 (drop 4 s) = [CHR 0x5C, CHR ''u''] then getu4 (take 4 (drop 6 s)) else None) of
                None \<Rightarrow> Some (EncodeRune ReplacementChar, 4)
              | Some rr1 \<Rightarrow>
                  (if utf16_DecodeRune rr rr1 \<noteq> ReplacementChar
                   then Some (EncodeRune (utf16_DecodeRune rr rr1), 10)
                   else Some (EncodeRune ReplacementChar, 4)))
           else Some (EncodeRune rr, 4)))"

text \<open>A string literal after its opening quote: the unquoted bytes and the input left.\<close>

fun scan_string :: "string \<Rightarrow> (string \<times> string) option" where
  "scan_string [] = None"
| "scan_string (c # cs) =
     (if c = CHR 0x22 then Some ([], cs)
      else if c = CHR 0x5C then
        (case cs of
           [] \<Rightarrow> None
         | e # r \<Rightarrow>
             (if e = CHR ''u'' then
                (case scan_u4 r of
                   None \<Rightarrow> None
                 | Some (bs, k) \<Rightarrow>
                     (case scan_string (drop k r) of None \<Rightarrow> None | Some (s, t) \<Rightarrow> Some (bs @ s, t)))
              else
                (case unescape e of
                   None \<Rightarrow> None
                 | Some x \<Rightarrow>
                     (case scan_string r of None \<Rightarrow> None | Some (s, t) \<Rightarrow> Some (x # s, t)))))
      else if (of_char c :: nat) < 32 then None
      else (case scan_string cs of None \<Rightarrow> None | Some (s, t) \<Rightarrow> Some (c # s, t)))"

text \<open>
  A number literal: an optional minus, \<open>0\<close> or digits not starting with \<open>0\<close>, an optional
  fraction, an optional exponent. The result is the literal and the input left.
\<close>

definition scan_frac :: "string \<Rightarrow> (string \<times> string) option" where
  "scan_frac s =
     (case s of
        [] \<Rightarrow> Some ([], s)
      | c # r \<Rightarrow>
          (if c = CHR ''.'' then
             (if takeWhile is_digit r = [] then None
              else Some (c # takeWhile is_digit r, dropWhile is_digit r))
           else Some ([], s)))"

definition scan_exp :: "string \<Rightarrow> (string \<times> string) option" where
  "scan_exp s =
     (case s of
        [] \<Rightarrow> Some ([], s)
      | c # r \<Rightarrow>
          (if c = CHR ''e'' \<or> c = CHR ''E'' then
             (let sg = (case r of [] \<Rightarrow> [] | x # _ \<Rightarrow> if x = CHR ''+'' \<or> x = CHR ''-'' then [x] else []);
                  r1 = drop (length sg) r
              in if takeWhile is_digit r1 = [] then None
                 else Some (c # sg @ takeWhile is_digit r1, dropWhile is_digit r1))
           else Some ([], s)))"

definition scan_number :: "string \<Rightarrow> (string \<times> string) option" where
  "scan_number s =
     (let sg = (case s of [] \<Rightarrow> [] | x # _ \<Rightarrow> if x = CHR ''-'' then [x] else []);
          s1 = drop (length sg) s
      in case s1 of
           [] \<Rightarrow> None
         | c # r \<Rightarrow>
             (if \<not> is_digit c then None
              else
                (let ip = (if c = CHR ''0'' then [c] else takeWhile is_digit s1);
                     s2 = drop (length ip) s1
                 in case scan_frac s2 of
                      None \<Rightarrow> None
                    | Some (fp, s3) \<Rightarrow>
                        (case scan_exp s3 of
                           None \<Rightarrow> None
                         | Some (ep, s4) \<Rightarrow> Some (sg @ ip @ fp @ ep, s4)))))"

text \<open>The literals the two Format functions print, as JSON numbers.\<close>

definition number_literal :: "string \<Rightarrow> bool" where
  "number_literal s = (\<exists>ds. (s = ds \<or> s = CHR ''-'' # ds) \<and> ds \<noteq> [] \<and> list_all is_digit ds \<and> (hd ds = CHR ''0'' \<longrightarrow> ds = ''0''))"

definition scan_literal :: "string \<Rightarrow> (json \<times> string) option" where
  "scan_literal s =
     (if take 4 s = ''null'' then Some (JNull, drop 4 s)
      else if take 4 s = ''true'' then Some (JBool True, drop 4 s)
      else if take 5 s = ''false'' then Some (JBool False, drop 5 s)
      else None)"

text \<open>
  A value. \<open>d\<close> is the number of levels of arrays and objects that may still be opened
  (the library allows 10000); \<open>n\<close> bounds the number of elements or members still to come
  and starts at the length of the input.
\<close>

fun parse_value :: "nat \<Rightarrow> string \<Rightarrow> (json \<times> string) option"
  and parse_elements :: "nat \<Rightarrow> nat \<Rightarrow> string \<Rightarrow> (json list \<times> string) option"
  and parse_members :: "nat \<Rightarrow> nat \<Rightarrow> string \<Rightarrow> ((string \<times> json) list \<times> string) option"
where
  "parse_value d [] = None"
| "parse_value d (c # cs) =
     (if c = CHR ''{'' then
        (if d = 0 then None
         else (case skip_space cs of
                 [] \<Rightarrow> None
               | x # r \<Rightarrow>
                   (if x = CHR ''}'' then Some (JObject [], r)
                    else (case parse_members (d - 1) (length cs) (x # r) of
                            None \<Rightarrow> None
                          | Some (kvs, t) \<Rightarrow> Some (JObject kvs, t)))))
      else if c = CHR ''['' then
        (if d = 0 then None
         else (case skip_space cs of
                 [] \<Rightarrow> None
               | x # r \<Rightarrow>
                   (if x = CHR '']'' then Some (JArray [], r)
                    else (case parse_elements (d - 1) (length cs) (x # r) of
                            None \<Rightarrow> None
                          | Some (vs, t) \<Rightarrow> Some (JArray vs, t)))))
      else if c = CHR 0x22 then
        (case scan_string cs of None \<Rightarrow> None | Some (s, t) \<Rightarrow> Some (JString s, t))
      else if c = CHR ''-'' \<or> is_digit c then
        (case scan_number (c # cs) of None \<Rightarrow> None | Some (s, t) \<Rightarrow> Some (JNumber s, t))
      else scan_literal (c # cs))"
| "parse_elements d 0 s = None"
| "parse_elements d (Suc n) s =
     (case parse_value d s of
        None \<Rightarrow> None
      | Some (v, r) \<Rightarrow>
          (case skip_space r of
             [] \<Rightarrow> None
           | e # r' \<Rightarrow>
               (if e = CHR '']'' then Some ([v], r')
                else if e = CHR '','' then
                  (case parse_elements d n (skip_space r') of
                     None \<Rightarrow> None
                   | Some (vs, t) \<Rightarrow> Some (v # vs, t))
                else None)))"
| "parse_members d 0 s = None"
| "parse_members d (Suc n) s =
     (case s of
        [] \<Rightarrow> None
      | q # r \<Rightarrow>
          (if q \<noteq> CHR 0x22 then None
           else (case scan_string r of
                   None \<Rightarrow> None
                 | Some (k, r1) \<Rightarrow>
                     (case skip_space r1 of
                        [] \<Rightarrow> None
                      | col # r2 \<Rightarrow>
                          (if col \<noteq> CHR '':'' then None
                           else (case parse_value d (skip_space r2) of
                                   None \<Rightarrow> None
                                 | Some (v, r3) \<Rightarrow>
                                     (case skip_space r3 of
                                        [] \<Rightarrow> None
                                      | e # r4 \<Rightarrow>
                                          (if e = CHR ''}'' then Some ([(k, v)], r4)
                                           else if e = CHR '','' then
                                             (case parse_members d n (skip_space r4) of
                                                None \<Rightarrow> None
                                              | Some (kvs, t) \<Rightarrow> Some ((k, v) # kvs, t))
                                           else None))))))))"

definition maxNestingDepth :: nat where
  "maxNestingDepth = 10000"

definition json_parse :: "string \<Rightarrow> json option" where
  "json_parse s =
     (case parse_value maxNestingDepth (skip_space s) of
        None \<Rightarrow> None
      | Some (v, r) \<Rightarrow> if skip_space r = [] then Some v else None)"

section \<open>The cursor codec (internal/utils/pagination/cursor.go)\<close>

record Cursor =
  CursorActorID :: u64
  UpdatedUnix :: i64

definition zero_Cursor :: Cursor where
  "zero_Cursor = \<lparr>CursorActorID = 0, UpdatedUnix = 0\<rparr>"

datatype error =
    InvalidPaginationToken
  | FailedToMarshalCursor
  | DuplicatedKey
  | PanicIndexOutOfRange

text \<open>
  \<open>json.Marshal\<close> of a \<open>Cursor\<close>: the member \<open>updated_unix\<close> is tagged \<open>omitempty\<close> and is
  left out when it is zero. Marshalling a struct of two integers cannot fail.
\<close>

definition json_Marshal :: "Cursor \<Rightarrow> error + string" where
  \<open>json_Marshal c =
     Inr (''{"actor_id":'' @ FormatUint (CursorActorID c) @
          (if UpdatedUnix c = 0 then [] else '',"updated_unix":'' @ FormatInt (UpdatedUnix c)) @
          ''}'')\<close>

text \<open>
  Member names match the field tags without regard to ASCII case. Neither tag has a letter
  with a non-ASCII case variant, so a name with a byte above \<open>0x7F\<close> matches no field.
\<close>

definition to_upper :: "char \<Rightarrow> char" where
  "to_upper c = (if 97 \<le> (of_char c :: nat) \<and> (of_char c :: nat) \<le> 122 then char_of (of_char c - 32 :: nat) else c)"

definition foldName :: "string \<Rightarrow> string" where
  "foldName s = map to_upper s"

text \<open>
  Decoding the members of an object into a \<open>Cursor\<close>, in order: \<open>null\<close> leaves the field as
  it is, a number literal must parse as the field's integer type, any other value is an
  \<open>UnmarshalTypeError\<close>; members with other names are skipped.
\<close>

fun unmarshal_members :: "(string \<times> json) list \<Rightarrow> Cursor \<Rightarrow> Cursor option" where
  "unmarshal_members [] c = Some c"
| "unmarshal_members ((k, v) # kvs) c =
     (if foldName k = ''ACTOR_ID'' then
        (case v of
           JNull \<Rightarrow> unmarshal_members kvs c
         | JNumber lit \<Rightarrow>
             (case ParseUint lit of
                None \<Rightarrow> None
              | Some n \<Rightarrow> unmarshal_members kvs (c\<lparr>CursorActorID := n\<rparr>))
         | _ \<Rightarrow> None)
      else if foldName k = ''UPDATED_UNIX'' then
        (case v of
           JNull \<Rightarrow> unmarshal_members kvs c
         | JNumber lit \<Rightarrow>
             (case ParseInt lit of
                None \<Rightarrow> None
              | Some n \<Rightarrow> unmarshal_members kvs (c\<lparr>UpdatedUnix := n\<rparr>))
         | _ \<Rightarrow> None)
      else unmarshal_members kvs c)"

text \<open>
  \<open>json.Unmarshal(b, &c)\<close> with \<open>c\<close> the zero \<open>Cursor\<close>: \<open>None\<close> is a syntax or type error.
  The JSON value \<open>null\<close> has no effect on a struct and is no error.
\<close>

definition json_Unmarshal :: "string \<Rightarrow> Cursor option" where
  "json_Unmarshal b =
     (case json_parse b of
        None \<Rightarrow> None
      | Some JNull \<Rightarrow> Some zero_Cursor
      | Some (JObject kvs) \<Rightarrow> unmarshal_members kvs zero_Cursor
      | Some _ \<Rightarrow> None)"

definition Encode :: "Cursor \<Rightarrow> error + string" where
  "Encode c =
     (case json_Marshal c of
        Inl err \<Rightarrow> Inl FailedToMarshalCursor
      | Inr b \<Rightarrow> Inr (EncodeToString b))"

definition Decode :: "string \<Rightarrow> error + Cursor" where
  "Decode token =
     (if token = [] then Inr zero_Cursor
      else (case DecodeString token of
              None \<Rightarrow> Inl InvalidPaginationToken
            | Some b \<Rightarrow>
                (case json_Unmarshal b of
                   None \<Rightarrow> Inl InvalidPaginationToken
                 | Some c \<Rightarrow> Inr c)))"

section \<open>The decisions table (internal/db/models.go)\<close>

record Decision =
  ActorID :: u64
  RecipientID :: u64
  Liked :: bool
  CreatedAt :: time
  UpdatedAt :: time

text \<open>
  The table \<open>decisions\<close> is the list of its rows. Its primary key is the pair
  \<open>(actor_id, recipient_id)\<close>.
\<close>

type_synonym decisions = "Decision list"

definition same_pk :: "Decision \<Rightarrow> Decision \<Rightarrow> bool" where
  "same_pk d e = (ActorID d = ActorID e \<and> RecipientID d = RecipientID e)"

definition pk_unique :: "decisions \<Rightarrow> bool" where
  "pk_unique tbl = distinct (map (\<lambda>d. (ActorID d, RecipientID d)) tbl)"

section \<open>Library model: the statements GORM issues\<close>

text \<open>
  \<open>Create\<close> under \<open>clause.OnConflict\<close> with conflict columns \<open>actor_id, recipient_id\<close> and
  \<open>DoUpdates: clause.AssignmentColumns(cols)\<close>: an \<open>INSERT\<close> whose conflict branch assigns
  the listed columns, and only those, from the row offered. \<open>assign\<close> is that assignment.
\<close>

definition insert_on_conflict ::
  "(Decision \<Rightarrow> Decision \<Rightarrow> Decision) \<Rightarrow> Decision \<Rightarrow> decisions \<Rightarrow> decisions" where
  "insert_on_conflict assign new tbl =
     (if \<exists>d \<in> set tbl. same_pk d new
      then map (\<lambda>d. if same_pk d new then assign d new else d) tbl
      else tbl @ [new])"

text \<open>\<open>AssignmentColumns([]string{"liked"})\<close>.\<close>

definition assign_liked :: "Decision \<Rightarrow> Decision \<Rightarrow> Decision" where
  "assign_liked d new = d\<lparr>Liked := Liked new\<rparr>"

text \<open>\<open>AssignmentColumns([]string{"liked", "updated_at"})\<close>, as the seeding code has it.\<close>

definition assign_liked_updated_at :: "Decision \<Rightarrow> Decision \<Rightarrow> Decision" where
  "assign_liked_updated_at d new = d\<lparr>Liked := Liked new, UpdatedAt := UpdatedAt new\<rparr>"

text \<open>A plain \<open>Create\<close>: the insert fails on a row with the same primary key.\<close>

definition Create :: "decisions \<Rightarrow> Decision \<Rightarrow> error option \<times> decisions" where
  "Create tbl new =
     (if \<exists>d \<in> set tbl. same_pk d new then (Some DuplicatedKey, tbl) else (None, tbl @ [new]))"

text \<open>\<open>First(&decision, "actor_id = ? AND recipient_id = ?", a, r)\<close>; \<open>None\<close> is \<open>ErrRecordNotFound\<close>.\<close>

definition First :: "decisions \<Rightarrow> u64 \<Rightarrow> u64 \<Rightarrow> Decision option" where
  "First tbl actorID recipientID =
     find (\<lambda>d. ActorID d = actorID \<and> RecipientID d = recipientID) tbl"

text \<open>
  \<open>Save\<close> of a row read from the table: with a zero primary-key field it runs \<open>Create\<close>;
  otherwise it updates all columns of the row with that key and stamps \<open>updated_at\<close>, and
  when no row has the key it inserts the row.
\<close>

definition Save :: "time \<Rightarrow> decisions \<Rightarrow> Decision \<Rightarrow> error option \<times> decisions" where
  "Save now tbl decision =
     (if ActorID decision = 0 \<or> RecipientID decision = 0 then Create tbl decision
      else if \<exists>d \<in> set tbl. same_pk d decision
      then (None, map (\<lambda>d. if same_pk d decision then decision\<lparr>UpdatedAt := now\<rparr> else d) tbl)
      else (None, tbl @ [decision\<lparr>UpdatedAt := now\<rparr>]))"

text \<open>\<open>Limit(n)\<close>: a \<open>LIMIT\<close> clause is written for \<open>n \<ge> 0\<close> only.\<close>

definition Limit :: "int \<Rightarrow> 'a list \<Rightarrow> 'a list" where
  "Limit n rows = (if 0 \<le> n then take (nat n) rows else rows)"

text \<open>
  \<open>Order("d.updated_at DESC, d.actor_id DESC")\<close>. Rows that agree on both columns come in
  an order the database chooses; among the rows of one recipient the primary key leaves
  no such pair.
\<close>

definition order_key :: "Decision \<Rightarrow> time \<times> u64" where
  "order_key d = (UpdatedAt d, ActorID d)"

definition order_desc :: "Decision list \<Rightarrow> Decision list" where
  "order_desc rows = rev (sort_key order_key rows)"

section \<open>The repository (internal/repository/decision\_repo.go)\<close>

text \<open>
  The file holds two variants of \<open>CreateOrUpdateDecision\<close>. This one is the variant the
  service and the tests call: a single insert that, on a primary-key conflict, assigns
  \<open>liked\<close>. \<open>now\<close> is the clock GORM stamps new rows with.
\<close>

definition CreateOrUpdateDecision ::
  "time \<Rightarrow> decisions \<Rightarrow> u64 \<Rightarrow> u64 \<Rightarrow> bool \<Rightarrow> error option \<times> decisions" where
  "CreateOrUpdateDecision now tbl actorID recipientID liked =
     (let decision = \<lparr>ActorID = actorID, RecipientID = recipientID, Liked = liked,
                       CreatedAt = now, UpdatedAt = now\<rparr>
      in (None, insert_on_conflict assign_liked decision tbl))"

text \<open>
  The other variant, at the head of the file, reads the row first and returns the previous
  value of \<open>liked\<close>: the result is \<open>(prev, err)\<close> and the table. Nothing in the repository
  calls it: the service and the tests take the single result of the variant above.
\<close>

definition CreateOrUpdateDecision_prev ::
  "time \<Rightarrow> decisions \<Rightarrow> u64 \<Rightarrow> u64 \<Rightarrow> bool \<Rightarrow> (bool option \<times> error option) \<times> decisions" where
  "CreateOrUpdateDecision_prev now tbl actorID recipientID liked =
     (case First tbl actorID recipientID of
        None \<Rightarrow>
          (let newDecision = \<lparr>ActorID = actorID, RecipientID = recipientID, Liked = liked,
                              CreatedAt = now, UpdatedAt = now\<rparr>
           in case Create tbl newDecision of
                (Some err, tbl') \<Rightarrow> ((None, Some err), tbl')
              | (None, tbl') \<Rightarrow> ((None, None), tbl'))
      | Some decision \<Rightarrow>
          (let prevVal = Liked decision
           in if Liked decision \<noteq> liked then
                (case Save now tbl (decision\<lparr>Liked := liked\<rparr>) of
                   (Some err, tbl') \<Rightarrow> ((Some prevVal, Some err), tbl')
                 | (None, tbl') \<Rightarrow> ((Some prevVal, None), tbl'))
              else ((Some prevVal, None), tbl)))"

text \<open>
  \<open>NOT EXISTS (SELECT 1 FROM decisions d2 WHERE d2.actor_id = ? AND
  d2.recipient_id = d.actor_id AND d2.liked = false)\<close>, negated: the recipient passed
  the actor of \<open>d\<close>.
\<close>

definition passed :: "decisions \<Rightarrow> u64 \<Rightarrow> Decision \<Rightarrow> bool" where
  "passed tbl recipientID d =
     (\<exists>d2 \<in> set tbl. ActorID d2 = recipientID \<and> RecipientID d2 = ActorID d \<and> \<not> Liked d2)"

text \<open>
  The sub-query of \<open>GetNewLikers\<close>: \<open>actor_id = d.recipient_id AND recipient_id = d.actor_id
  AND liked = true\<close>.
\<close>

definition liked_back :: "decisions \<Rightarrow> Decision \<Rightarrow> bool" where
  "liked_back tbl d =
     (\<exists>d2 \<in> set tbl. ActorID d2 = RecipientID d \<and> RecipientID d2 = ActorID d \<and> Liked d2)"

definition likers_where :: "decisions \<Rightarrow> u64 \<Rightarrow> Decision \<Rightarrow> bool" where
  "likers_where tbl recipientID d =
     ((RecipientID d = recipientID \<and> Liked d) \<and> \<not> passed tbl recipientID d)"

definition new_likers_where :: "decisions \<Rightarrow> u64 \<Rightarrow> Decision \<Rightarrow> bool" where
  "new_likers_where tbl recipientID d =
     ((RecipientID d = recipientID \<and> Liked d \<and> \<not> liked_back tbl d) \<and> \<not> passed tbl recipientID d)"

text \<open>\<open>cursor.ActorID > 0 && cursor.UpdatedUnix > 0\<close>.\<close>

definition cursor_given :: "Cursor \<Rightarrow> bool" where
  "cursor_given cursor = (0 < CursorActorID cursor \<and> 0 < sint (UpdatedUnix cursor))"

text \<open>\<open>(d.updated_at < ? OR (d.updated_at = ? AND d.actor_id < ?))\<close> with \<open>ts, ts, cursor.ActorID\<close>.\<close>

definition cursor_where :: "Cursor \<Rightarrow> Decision \<Rightarrow> bool" where
  "cursor_where cursor d =
     (let ts = time_UnixMilli (UpdatedUnix cursor)
      in UpdatedAt d < ts \<or> (UpdatedAt d = ts \<and> ActorID d < CursorActorID cursor))"

definition getString :: "string option \<Rightarrow> string" where
  "getString s = (case s of None \<Rightarrow> [] | Some t \<Rightarrow> t)"

text \<open>
  The rows \<open>query.Find(&decisions)\<close> fetches: the conditions, the cursor condition when
  the cursor is given, the order, and \<open>Limit(limit + 1)\<close> in Go's wrapping \<open>int\<close> arithmetic.
\<close>

definition find_rows ::
  "(Decision \<Rightarrow> bool) \<Rightarrow> decisions \<Rightarrow> Cursor \<Rightarrow> i64 \<Rightarrow> Decision list" where
  "find_rows cond tbl cursor limit =
     (let rows = filter cond tbl;
          rows = (if cursor_given cursor then filter (cursor_where cursor) rows else rows)
      in Limit (sint (limit + 1)) (order_desc rows))"

text \<open>
  The tail both list queries share: when more than \<open>limit\<close> rows came back, the token is the
  cursor of row \<open>limit - 1\<close> and the page is the first \<open>limit\<close> rows. Indexing outside the
  slice panics.
\<close>

definition build_page :: "Decision list \<Rightarrow> i64 \<Rightarrow> error + (Decision list \<times> string option)" where
  "build_page decisions limit =
     (if sint limit < int (length decisions) then
        (let i = sint (limit - 1)
         in if i < 0 \<or> int (length decisions) \<le> i then Inl PanicIndexOutOfRange
            else
              (let last = decisions ! nat i;
                   token = (case Encode \<lparr>CursorActorID = ActorID last,
                                          UpdatedUnix = UnixMilli (UpdatedAt last)\<rparr> of
                              Inl err \<Rightarrow> []
                            | Inr t \<Rightarrow> t)
               in Inr (take (nat (sint limit)) decisions, Some token)))
      else Inr (decisions, None))"

definition GetLikers ::
  "decisions \<Rightarrow> u64 \<Rightarrow> string option \<Rightarrow> i64 \<Rightarrow> error + (Decision list \<times> string option)" where
  "GetLikers tbl recipientID paginationToken limit =
     (case Decode (getString paginationToken) of
        Inl err \<Rightarrow> Inl err
      | Inr cursor \<Rightarrow>
          build_page (find_rows (likers_where tbl recipientID) tbl cursor limit) limit)"

definition GetNewLikers ::
  "decisions \<Rightarrow> u64 \<Rightarrow> string option \<Rightarrow> i64 \<Rightarrow> error + (Decision list \<times> string option)" where
  "GetNewLikers tbl recipientID paginationToken limit =
     (case Decode (getString paginationToken) of
        Inl err \<Rightarrow> Inl err
      | Inr cursor \<Rightarrow>
          build_page (find_rows (new_likers_where tbl recipientID) tbl cursor limit) limit)"

definition CountLikers :: "decisions \<Rightarrow> u64 \<Rightarrow> int" where
  "CountLikers tbl recipientID = int (length (filter (likers_where tbl recipientID) tbl))"


section \<open>The service (internal/service/explore/service.go)\<close>

text \<open>
  The gRPC status a handler returns with. \<open>svcErr.Map\<close> turns every error the repository
  model can return into \<open>codes.Internal\<close> with the error's message; a panic is no error
  value and reaches the caller as the panic it is.
\<close>

datatype status =
    InvalidArgument string
  | Internal string
  | Panicked

definition Error :: "error \<Rightarrow> string" where
  "Error err =
     (case err of
        InvalidPaginationToken \<Rightarrow> ''invalid pagination token''
      | FailedToMarshalCursor \<Rightarrow> ''failed to marshal cursor''
      | DuplicatedKey \<Rightarrow> ''duplicated key not allowed''
      | PanicIndexOutOfRange \<Rightarrow> ''index out of range'')"

definition Map :: "error \<Rightarrow> status" where
  "Map err = (if err = PanicIndexOutOfRange then Panicked else Internal (Error err))"

text \<open>
  The application context: the table, the like counters kept in Redis (one per user id,
  \<open>KeyForLikeCount\<close>), and the repository calls made so far, in order. The last field is
  kept by the model only, so that what a handler asks of the repository can be stated.
\<close>

datatype repo_call =
    CallCreateOrUpdateDecision u64 u64 bool
  | CallHasLiked u64 u64
  | CallGetLikers u64 "string option" i64
  | CallGetNewLikers u64 "string option" i64

record AppContext =
  DB :: decisions
  RedisCache :: "u64 \<Rightarrow> int option"
  calls :: "repo_call list"






record ListLikedYouRequest =
  RecipientUserID :: string
  PaginationToken :: "string option"

record Liker =
  ActorId :: string
  UnixTimestamp :: u64

record ListLikedYouResponse =
  Likers :: "Liker list"
  NextPaginationToken :: "string option"

definition likers_response :: "Decision list \<Rightarrow> string option \<Rightarrow> ListLikedYouResponse" where
  "likers_response decisions nextToken =
     \<lparr>Likers = map (\<lambda>d. \<lparr>ActorId = FormatUint (ActorID d), UnixTimestamp = UnixMilli (UpdatedAt d)\<rparr>)
                    decisions,
      NextPaginationToken = nextToken\<rparr>"

definition ListLikedYou ::
  "AppContext \<Rightarrow> ListLikedYouRequest \<Rightarrow> (status + ListLikedYouResponse) \<times> AppContext" where
  "ListLikedYou app req =
     (case ParseUint (RecipientUserID req) of
        None \<Rightarrow> (Inl (InvalidArgument ''recipient_user_id must be a valid uint64''), app)
      | Some recipientID \<Rightarrow>
          (let app1 = app\<lparr>calls := calls app @ [CallGetLikers recipientID (PaginationToken req) 5]\<rparr>
           in case GetLikers (DB app) recipientID (PaginationToken req) 5 of
                Inl err \<Rightarrow> (Inl (Map err), app1)
              | Inr (decisions, nextToken) \<Rightarrow> (Inr (likers_response decisions nextToken), app1)))"

definition ListNewLikedYou ::
  "AppContext \<Rightarrow> ListLikedYouRequest \<Rightarrow> (status + ListLikedYouResponse) \<times> AppContext" where
  "ListNewLikedYou app req =
     (case ParseUint (RecipientUserID req) of
        None \<Rightarrow> (Inl (InvalidArgument ''recipient_user_id must be a valid uint64''), app)
      | Some recipientID \<Rightarrow>
          (let app1 = app\<lparr>calls := calls app @ [CallGetNewLikers recipientID (PaginationToken req) 5]\<rparr>
           in case GetNewLikers (DB app) recipientID (PaginationToken req) 5 of
                Inl err \<Rightarrow> (Inl (Map err), app1)
              | Inr (decisions, nextToken) \<Rightarrow> (Inr (likers_response decisions nextToken), app1)))"

section \<open>A client that pages to the end\<close>

text \<open>
  The caller the pagination claims speak of: it asks for the first page with no token and
  feeds each token returned into the next call until none is returned, collecting the
  rows. \<open>None\<close> means the calls allowed were used up without reaching the end, or a call
  failed.
\<close>

fun page_through :: "nat \<Rightarrow> decisions \<Rightarrow> u64 \<Rightarrow> i64 \<Rightarrow> string option \<Rightarrow> Decision list option" where
  "page_through 0 tbl recipientID limit token = None"
| "page_through (Suc n) tbl recipientID limit token =
     (case GetLikers tbl recipientID token limit of
        Inl err \<Rightarrow> None
      | Inr (rows, None) \<Rightarrow> Some rows
      | Inr (rows, Some next) \<Rightarrow>
          (case page_through n tbl recipientID limit (Some next) of
             None \<Rightarrow> None
           | Some rest \<Rightarrow> Some (rows @ rest)))"

section \<open>Notions the claims use\<close>

text \<open>
  The qualifying rows of a list query: the rows of the table that satisfy the query's
  conditions and, when a cursor is given, lie after the cursor's position.
\<close>

definition qualifying :: "(Decision \<Rightarrow> bool) \<Rightarrow> Cursor \<Rightarrow> decisions \<Rightarrow> Decision list" where
  "qualifying cond cursor tbl =
     filter (\<lambda>d. cond d \<and> (cursor_given cursor \<longrightarrow> cursor_where cursor d)) tbl"

text \<open>
  A row a cursor can stand for: its actor is not 0 and its \<open>updated_at\<close> is a whole,
  strictly positive number of milliseconds that fits \<open>int64\<close>.
\<close>

definition cursor_safe :: "Decision \<Rightarrow> bool" where
  "cursor_safe d =
     (ActorID d \<noteq> 0 \<and> UpdatedAt d mod 1000000 = 0 \<and> 0 < UpdatedAt d
      \<and> UpdatedAt d div 1000000 < 2 ^ 63)"

text \<open>
  A table for the examples: the rows of \<open>SeedMinimalTestData\<close> and two more likers of
  user 1 that share a timestamp. Times are 1 ms to 5 ms after the epoch.
\<close>

definition decision :: "u64 \<Rightarrow> u64 \<Rightarrow> bool \<Rightarrow> time \<Rightarrow> Decision" where
  "decision a r l t = \<lparr>ActorID = a, RecipientID = r, Liked = l, CreatedAt = t, UpdatedAt = t\<rparr>"

definition example_table :: decisions where
  "example_table =
     [decision 1 2 True 1000000, decision 2 1 True 2000000, decision 3 1 True 3000000,
      decision 1 3 False 4000000, decision 4 1 True 5000000, decision 5 1 True 5000000]"

text \<open>
  A table whose most recent liker of user 9 is user 0.
\<close>

definition zero_actor_table :: decisions where
  "zero_actor_table = [decision 0 9 True 2000000, decision 1 9 True 1000000]"

definition example_app :: AppContext where
  "example_app = \<lparr>DB = example_table, RedisCache = (\<lambda>k. None), calls = []\<rparr>"

text \<open>
  What the pagination contract says of a page \<open>rows\<close> with next token \<open>nxt\<close> that a list
  query with conditions \<open>cond\<close> returns for cursor \<open>c\<close> and page size \<open>L\<close>: at most \<open>L + 1\<close>
  rows are fetched, all of them qualifying; at most \<open>L\<close> are returned; there is a token
  exactly when an \<open>(L+1)\<close>-th qualifying row exists; the token encodes the last row
  returned; and fewer than \<open>L + 1\<close> rows fetched means no token.
\<close>

definition page_contract ::
  "(Decision \<Rightarrow> bool) \<Rightarrow> decisions \<Rightarrow> Cursor \<Rightarrow> i64 \<Rightarrow> Decision list \<Rightarrow> string option \<Rightarrow> bool" where
  "page_contract cond tbl c L rows nxt =
     (int (length (find_rows cond tbl c L)) \<le> sint L + 1
      \<and> set (find_rows cond tbl c L) \<subseteq> set (qualifying cond c tbl)
      \<and> int (length rows) \<le> sint L
      \<and> (nxt \<noteq> None \<longleftrightarrow> sint L + 1 \<le> int (length (qualifying cond c tbl)))
      \<and> (nxt \<noteq> None \<longrightarrow> rows \<noteq> [] \<and>
            Encode \<lparr>CursorActorID = ActorID (last rows),
                    UpdatedUnix = UnixMilli (UpdatedAt (last rows))\<rparr> = Inr (the nxt))
      \<and> (int (length (find_rows cond tbl c L)) < sint L + 1 \<longrightarrow> nxt = None))"

section \<open>Properties of the library models\<close>

subsection \<open>Characters and decimal numbers\<close>

lemma char_of_numeral:
  "char_of (numeral k :: nat) =
     Char (odd (numeral k :: nat)) (odd (numeral k div 2 :: nat)) (odd (numeral k div 4 :: nat))
          (odd (numeral k div 8 :: nat)) (odd (numeral k div 16 :: nat)) (odd (numeral k div 32 :: nat))
          (odd (numeral k div 64 :: nat)) (odd (numeral k div 128 :: nat))"
  by (simp add: char_of_def bit_iff_odd)

lemma char_of_0: "char_of (0 :: nat) = CHR 0x00"
  by (simp add: char_of_def)

lemma char_of_1: "char_of (Suc 0) = CHR 0x01"
  by (simp add: char_of_def bit_iff_odd)

lemmas char_of_nat_simps = char_of_numeral char_of_0 char_of_1

lemma is_digit_digit_char: "d < 10 \<Longrightarrow> is_digit (digit_char d)"
  by (simp add: is_digit_def digit_char_def)

lemma digit_val_digit_char: "d < 10 \<Longrightarrow> digit_val (digit_char d) = d"
  by (simp add: digit_val_def digit_char_def)

lemma digits_of_all_digits: "list_all is_digit (digits_of n)"
  by (induction n rule: digits_of.induct) (subst digits_of.simps, simp add: is_digit_digit_char)

lemma digits_of_nonempty: "digits_of n \<noteq> []"
  by (subst digits_of.simps) simp

lemma digits_val_snoc: "digits_val (s @ [c]) = 10 * digits_val s + digit_val c"
  by (simp add: digits_val_def)

lemma digits_val_digits_of: "digits_val (digits_of n) = n"
proof (induction n rule: digits_of.induct)
  case (1 n)
  show ?case
  proof (cases "n < 10")
    case True
    then show ?thesis
      by (subst digits_of.simps) (simp add: digits_val_def digit_val_digit_char)
  next
    case False
    with 1 show ?thesis
      by (subst digits_of.simps) (simp add: digits_val_snoc digit_val_digit_char)
  qed
qed

lemma hd_digits_of: "hd (digits_of n) = CHR ''0'' \<longleftrightarrow> n = 0"
proof (induction n rule: digits_of.induct)
  case (1 n)
  show ?case
  proof (cases "n < 10")
    case True
    then have "digit_char n = CHR ''0'' \<longleftrightarrow> n = 0"
      by (auto simp: digit_char_def char_of_eq_iff take_bit_eq_mod)
    with True show ?thesis
      by (subst digits_of.simps) simp
  next
    case False
    then have "n div 10 \<noteq> 0" by simp
    with 1 False show ?thesis
      by (subst digits_of.simps) (simp add: digits_of_nonempty)
  qed
qed

lemma ParseUint_FormatUint: "ParseUint (FormatUint n) = Some n"
proof -
  have "unat n < 2 ^ 64"
    using unsigned_less [of n] by simp
  then show ?thesis
    by (simp add: ParseUint_def FormatUint_def digits_of_nonempty digits_of_all_digits
        digits_val_digits_of)
qed

lemma ParseInt_FormatInt: "ParseInt (FormatInt n) = Some n"
proof (cases "sint n < 0")
  case True
  have lo: "- (2 ^ 63) \<le> sint n"
    using sint_ge [of n] by simp
  have "nat (- sint n) \<le> 2 ^ 63"
    using lo True by (simp add: nat_le_iff)
  moreover have "word_of_int (- int (nat (- sint n))) = n"
    using True by simp
  ultimately show ?thesis
    using True
    by (simp add: ParseInt_def FormatInt_def digits_of_nonempty digits_of_all_digits
        digits_val_digits_of)
next
  case False
  have hi: "sint n < 2 ^ 63"
    using sint_lt [of n] by simp
  have b: "nat (sint n) < 2 ^ 63"
    using hi False by (simp add: nat_less_iff)
  have w: "(of_nat (nat (sint n)) :: 64 word) = n"
    using False by simp
  obtain c r where cr: "digits_of (nat (sint n)) = c # r"
    using digits_of_nonempty [of "nat (sint n)"] by (cases "digits_of (nat (sint n))") auto
  have dc: "is_digit c" and dr: "list_all is_digit r"
    using digits_of_all_digits [of "nat (sint n)"] cr by auto
  then have nc: "c \<noteq> CHR ''-''" "c \<noteq> CHR ''+''"
    by (auto simp: is_digit_def)
  have "digits_val (c # r) = nat (sint n)"
    using digits_val_digits_of [of "nat (sint n)"] cr by simp
  then show ?thesis
    using False b w nc dc dr
    by (simp add: ParseInt_def FormatInt_def cr)
qed

subsection \<open>JSON: what is marshalled is unmarshalled\<close>

lemma digits_of_zero_head: "hd (digits_of n) = CHR ''0'' \<Longrightarrow> digits_of n = ''0''"
proof -
  assume "hd (digits_of n) = CHR ''0''"
  then have "n = 0"
    by (simp add: hd_digits_of)
  then show ?thesis
    by (simp add: digits_of.simps digit_char_def char_of_nat_simps)
qed

lemma takeWhile_digits_stop:
  "list_all is_digit ds \<Longrightarrow> \<not> is_digit c \<Longrightarrow> takeWhile is_digit (ds @ c # rest) = ds"
  by (induction ds) auto

lemma scan_number_digits:
  assumes "ds \<noteq> []" "list_all is_digit ds" "hd ds = CHR ''0'' \<longrightarrow> ds = ''0''"
    and "\<not> is_digit c" "c \<noteq> CHR ''.''" "c \<noteq> CHR ''e''" "c \<noteq> CHR ''E''"
  shows "scan_number (ds @ c # rest) = Some (ds, c # rest)"
proof -
  obtain x xs where ds: "ds = x # xs"
    using assms(1) by (cases ds) auto
  have x: "is_digit x" "x \<noteq> CHR ''-''"
    using assms(2) ds by (auto simp: is_digit_def)
  have tw: "takeWhile is_digit (xs @ c # rest) = xs"
    using assms(2,4) ds takeWhile_digits_stop [of xs c rest] by simp
  show ?thesis
  proof (cases "x = CHR ''0''")
    case True
    then have "xs = []"
      using assms(3) ds by simp
    then show ?thesis
      using x True assms(4-)
      by (simp add: scan_number_def ds Let_def scan_frac_def scan_exp_def)
  next
    case False
    then show ?thesis
      using x assms(4-)
      by (simp add: scan_number_def ds Let_def tw scan_frac_def scan_exp_def)
  qed
qed

lemma scan_number_minus_digits:
  assumes "ds \<noteq> []" "list_all is_digit ds" "hd ds = CHR ''0'' \<longrightarrow> ds = ''0''"
    and "\<not> is_digit c" "c \<noteq> CHR ''.''" "c \<noteq> CHR ''e''" "c \<noteq> CHR ''E''"
  shows "scan_number (CHR ''-'' # ds @ c # rest) = Some (CHR ''-'' # ds, c # rest)"
proof -
  obtain x xs where ds: "ds = x # xs"
    using assms(1) by (cases ds) auto
  have x: "is_digit x" "x \<noteq> CHR ''-''"
    using assms(2) ds by (auto simp: is_digit_def)
  have tw: "takeWhile is_digit (xs @ c # rest) = xs"
    using assms(2,4) ds takeWhile_digits_stop [of xs c rest] by simp
  show ?thesis
  proof (cases "x = CHR ''0''")
    case True
    then have "xs = []"
      using assms(3) ds by simp
    then show ?thesis
      using x True assms(4-)
      by (simp add: scan_number_def ds Let_def scan_frac_def scan_exp_def)
  next
    case False
    then show ?thesis
      using x assms(4-)
      by (simp add: scan_number_def ds Let_def tw scan_frac_def scan_exp_def)
  qed
qed

lemma number_literal_FormatUint: "number_literal (FormatUint n)"
  unfolding number_literal_def FormatUint_def
  using digits_of_nonempty digits_of_all_digits digits_of_zero_head by blast

lemma number_literal_FormatInt: "number_literal (FormatInt n)"
  unfolding number_literal_def FormatInt_def
  using digits_of_nonempty digits_of_all_digits digits_of_zero_head
  by (cases "sint n < 0") (simp_all, blast+)

lemma parse_value_number:
  assumes "number_literal s" and "c = CHR ''}'' \<or> c = CHR '',''"
  shows "parse_value d (s @ c # rest) = Some (JNumber s, c # rest)"
proof -
  from assms(1) obtain ds where ds: "s = ds \<or> s = CHR ''-'' # ds" "ds \<noteq> []" "list_all is_digit ds"
    "hd ds = CHR ''0'' \<longrightarrow> ds = ''0''"
    unfolding number_literal_def by blast
  obtain x xs where x: "ds = x # xs"
    using ds(2) by (cases ds) auto
  have dx: "is_digit x"
    using ds(3) x by simp
  then have nx: "x \<noteq> CHR ''{''" "x \<noteq> CHR ''[''" "x \<noteq> CHR 0x22"
    by (auto simp: is_digit_def)
  have c: "\<not> is_digit c" "c \<noteq> CHR ''.''" "c \<noteq> CHR ''e''" "c \<noteq> CHR ''E''"
    using assms(2) by (auto simp: is_digit_def)
  from ds(1) show ?thesis
  proof
    assume s: "s = ds"
    have "scan_number (x # xs @ c # rest) = Some (ds, c # rest)"
      using scan_number_digits [OF ds(2,3,4) c, of rest] x by simp
    then show ?thesis
      using dx nx by (simp add: s x)
  next
    assume s: "s = CHR ''-'' # ds"
    have "scan_number (CHR ''-'' # ds @ c # rest) = Some (CHR ''-'' # ds, c # rest)"
      using scan_number_minus_digits [OF ds(2,3,4) c, of rest] by simp
    then show ?thesis
      by (simp add: s)
  qed
qed

lemma number_literal_no_space: "number_literal s \<Longrightarrow> skip_space (s @ r) = s @ r"
  by (auto simp: number_literal_def skip_space_def is_space_def is_digit_def neq_Nil_conv)

lemma skip_space_simps:
  "skip_space [] = []"
  "skip_space (c # cs) = (if is_space c then skip_space cs else c # cs)"
  by (simp_all add: skip_space_def)

lemmas json_eval =
  skip_space_simps is_space_def unescape_def foldName_def to_upper_def char_of_nat_simps

lemma parse_actor_only:
  assumes "number_literal a"
  shows \<open>json_parse (''{"actor_id":'' @ a @ ''}'') = Some (JObject [(''actor_id'', JNumber a)])\<close>
proof -
  have v: "parse_value d (a @ ''}'') = Some (JNumber a, ''}'')" for d
    using parse_value_number [OF assms, of "CHR ''}''" d "[]"] by simp
  have sp: "skip_space (a @ ''}'') = a @ ''}''"
    using number_literal_no_space [OF assms] by simp
  show ?thesis
    by (simp add: json_parse_def maxNestingDepth_def json_eval sp v)
qed

lemma parse_actor_updated:
  assumes "number_literal a" "number_literal u"
  shows \<open>json_parse (''{"actor_id":'' @ a @ '',"updated_unix":'' @ u @ ''}'')
           = Some (JObject [(''actor_id'', JNumber a), (''updated_unix'', JNumber u)])\<close>
proof -
  have v: "parse_value d (a @ CHR '','' # r) = Some (JNumber a, CHR '','' # r)" for d r
    using parse_value_number [OF assms(1), of "CHR '',''" d r] by simp
  have w: "parse_value d (u @ ''}'') = Some (JNumber u, ''}'')" for d
    using parse_value_number [OF assms(2), of "CHR ''}''" d "[]"] by simp
  have sp: "skip_space (a @ r) = a @ r" "skip_space (u @ r) = u @ r" for r
    using number_literal_no_space assms by simp_all
  show ?thesis
    by (simp add: json_parse_def maxNestingDepth_def json_eval sp v w)
qed

lemma json_Unmarshal_Marshal:
  "json_Marshal c = Inr b \<Longrightarrow> json_Unmarshal b = Some c"
proof -
  assume m: "json_Marshal c = Inr b"
  show ?thesis
  proof (cases "UpdatedUnix c = 0")
    case True
    then have b: \<open>b = ''{"actor_id":'' @ FormatUint (CursorActorID c) @ ''}''\<close>
      using m by (simp add: json_Marshal_def)
    have "c = \<lparr>CursorActorID = CursorActorID c, UpdatedUnix = 0\<rparr>"
      using True by simp
    then show ?thesis
      unfolding b json_Unmarshal_def parse_actor_only [OF number_literal_FormatUint]
      by (simp add: json_eval ParseUint_FormatUint zero_Cursor_def)
  next
    case False
    then have b: \<open>b = ''{"actor_id":'' @ FormatUint (CursorActorID c) @ '',"updated_unix":'' @
        FormatInt (UpdatedUnix c) @ ''}''\<close>
      using m by (simp add: json_Marshal_def)
    show ?thesis
      unfolding b json_Unmarshal_def
        parse_actor_updated [OF number_literal_FormatUint number_literal_FormatInt]
      by (simp add: json_eval ParseUint_FormatUint ParseInt_FormatInt zero_Cursor_def)
  qed
qed

subsection \<open>Base64: what is encoded is decoded\<close>

lemma b64_table:
  "list_all (\<lambda>i. decodeMap (b64_char i) = Some i \<and> b64_char i \<noteq> padChar
      \<and> b64_char i \<noteq> CHR 0x0D \<and> b64_char i \<noteq> CHR 0x0A) [0..<64]"
  by (simp add: upt_rec decodeMap_def b64_char_def encodeURL_def padChar_def)

lemma b64_char_props:
  assumes "i < 64"
  shows "decodeMap (b64_char i) = Some i" "b64_char i \<noteq> padChar"
    "b64_char i \<noteq> CHR 0x0D" "b64_char i \<noteq> CHR 0x0A"
  using b64_table assms by (simp_all add: list_all_iff)

lemma of_char_lt_256: "(of_char c :: nat) < 256"
  by simp

lemma decodeQuantum_4:
  assumes "i1 < 64" "i2 < 64" "i3 < 64" "i4 < 64"
  shows "decodeQuantum [b64_char i1, b64_char i2, b64_char i3, b64_char i4] 4 =
    (let val = ((i1 * 64 + i2) * 64 + i3) * 64 + i4
     in Some [char_of (val div 65536), char_of (val div 256), char_of val])"
  using assms by (simp add: decodeQuantum_def b64_char_props Let_def)

lemma decodeQuantum_3:
  assumes "i1 < 64" "i2 < 64" "i3 < 64"
  shows "decodeQuantum [b64_char i1, b64_char i2, b64_char i3] 3 =
    (let val = ((i1 * 64 + i2) * 64 + i3) * 64
     in Some [char_of (val div 65536), char_of (val div 256)])"
  using assms by (simp add: decodeQuantum_def b64_char_props Let_def)

lemma decodeQuantum_2:
  assumes "i1 < 64" "i2 < 64"
  shows "decodeQuantum [b64_char i1, b64_char i2] 2 =
    (let val = (i1 * 64 + i2) * 4096
     in Some [char_of (val div 65536)])"
  using assms by (simp add: decodeQuantum_def b64_char_props Let_def)

lemma sextets:
  fixes v :: nat
  assumes "v < 16777216"
  shows "((v div 262144 mod 64 * 64 + v div 4096 mod 64) * 64 + v div 64 mod 64) * 64 + v mod 64 = v"
proof -
  have a: "v div 4096 = v div 64 div 64" "v div 262144 = v div 64 div 64 div 64"
    by (simp_all add: div_mult2_eq)
  have "v div 262144 < 64"
    using assms by simp
  then have h: "v div 64 div 64 div 64 mod 64 = v div 64 div 64 div 64"
    by (simp add: a)
  show ?thesis
    by (simp only: a h div_mult_mod_eq)
qed

lemma bytes_of_val:
  fixes A B C :: nat
  assumes "A < 256" "B < 256" "C < 256"
  shows "(A * 65536 + B * 256 + C) div 65536 = A"
    "(A * 65536 + B * 256 + C) div 256 mod 256 = B"
    "(A * 65536 + B * 256 + C) mod 256 = C"
    "A * 65536 + B * 256 + C < 16777216"
proof -
  have e: "A * 65536 + B * 256 + C = (A * 256 + B) * 256 + C"
    by simp
  show "(A * 65536 + B * 256 + C) div 65536 = A"
    using assms by simp
  have "(k * 256 + C) div 256 = k" for k
    using assms by simp
  then have "((A * 256 + B) * 256 + C) div 256 = A * 256 + B" .
  moreover have "(A * 256 + B) mod 256 = B"
    using assms by simp
  ultimately show "(A * 65536 + B * 256 + C) div 256 mod 256 = B"
    by (simp only: e)
  have "(k * 256 + C) mod 256 = C" for k
    using assms by simp
  then have "((A * 256 + B) * 256 + C) mod 256 = C" .
  then show "(A * 65536 + B * 256 + C) mod 256 = C"
    by (simp only: e)
  show "A * 65536 + B * 256 + C < 16777216"
    using assms by simp
qed

lemma char_of_byte: "n mod 256 = of_char c \<Longrightarrow> char_of (n :: nat) = c"
  by (metis char_of_char char_of_mod_256)

lemma decode_quanta_full:
  assumes "c \<noteq> padChar" "d \<noteq> padChar"
  shows "decode_quanta (a # b # c # d # rest) =
     (case decodeQuantum [a, b, c, d] 4 of
        None \<Rightarrow> None
      | Some bs \<Rightarrow> (case decode_quanta rest of None \<Rightarrow> None | Some bs' \<Rightarrow> Some (bs @ bs')))"
  using assms by (cases rest) (auto split: option.splits)

lemma decode_quanta_EncodeToString: "decode_quanta (EncodeToString bs) = Some bs"
proof (induction bs rule: EncodeToString.induct)
  case (1 a b c rest)
  define v :: nat where "v = of_char a * 65536 + of_char b * 256 + of_char c"
  have v: "v < 16777216" "v div 65536 = of_char a" "v div 256 mod 256 = of_char b" "v mod 256 = of_char c"
    unfolding v_def using bytes_of_val [OF of_char_lt_256 of_char_lt_256 of_char_lt_256, of a b c]
    by simp_all
  have "decodeQuantum [b64_char (v div 262144 mod 64), b64_char (v div 4096 mod 64),
        b64_char (v div 64 mod 64), b64_char (v mod 64)] 4 =
      Some [char_of (v div 65536), char_of (v div 256), char_of v]"
    by (subst decodeQuantum_4) (simp_all only: Let_def sextets [OF v(1)] mod_less_divisor zero_less_numeral)
  moreover have "char_of (v div 65536) = a" "char_of (v div 256) = b" "char_of v = c"
    using v by (simp_all add: char_of_byte)
  ultimately have q: "decodeQuantum [b64_char (v div 262144 mod 64), b64_char (v div 4096 mod 64),
        b64_char (v div 64 mod 64), b64_char (v mod 64)] 4 = Some [a, b, c]"
    by simp
  show ?case
    using 1 q
    by (simp add: Let_def v_def [symmetric] decode_quanta_full b64_char_props del: decode_quanta.simps)
next
  case (2 a b)
  define v :: nat where "v = of_char a * 65536 + of_char b * 256"
  have v: "v < 16777216" "v div 65536 = of_char a" "v div 256 mod 256 = of_char b" "v mod 64 = 0"
    unfolding v_def using bytes_of_val [OF of_char_lt_256 of_char_lt_256, of 0 a b]
    by simp_all
  have s: "((v div 262144 mod 64 * 64 + v div 4096 mod 64) * 64 + v div 64 mod 64) * 64 = v"
    using sextets [OF v(1)] by (simp only: v(4) add_0_right)
  have "decodeQuantum [b64_char (v div 262144 mod 64), b64_char (v div 4096 mod 64),
        b64_char (v div 64 mod 64)] 3 = Some [char_of (v div 65536), char_of (v div 256)]"
    by (subst decodeQuantum_3) (simp_all only: Let_def s mod_less_divisor zero_less_numeral)
  moreover have "char_of (v div 65536) = a" "char_of (v div 256) = b"
    using v by (simp_all add: char_of_byte)
  ultimately have q: "decodeQuantum [b64_char (v div 262144 mod 64), b64_char (v div 4096 mod 64),
        b64_char (v div 64 mod 64)] 3 = Some [a, b]"
    by simp
  show ?case
    using q by (simp add: Let_def v_def [symmetric] b64_char_props)
next
  case (3 a)
  define v :: nat where "v = of_char a * 65536"
  have v: "v < 16777216" "v div 65536 = of_char a" "v mod 64 = 0" "v div 64 mod 64 = 0"
    unfolding v_def using of_char_lt_256 [of a] by simp_all
  have g: "((X * 64 + Y) * 64 + 0) * 64 + 0 = (X * 64 + Y) * 4096" for X Y :: nat
    by simp
  have "((v div 262144 mod 64 * 64 + v div 4096 mod 64) * 64 + 0) * 64 + 0 = v"
    using sextets [OF v(1)] by (simp only: v(3,4))
  then have s: "(v div 262144 mod 64 * 64 + v div 4096 mod 64) * 4096 = v"
    by (simp only: g)
  have "decodeQuantum [b64_char (v div 262144 mod 64), b64_char (v div 4096 mod 64)] 2 =
      Some [char_of (v div 65536)]"
    by (subst decodeQuantum_2) (simp_all only: Let_def s mod_less_divisor zero_less_numeral)
  then have q: "decodeQuantum [b64_char (v div 262144 mod 64), b64_char (v div 4096 mod 64)] 2 = Some [a]"
    using v by simp
  show ?case
    using q by (simp add: Let_def v_def [symmetric] b64_char_props)
next
  case 4
  show ?case by simp
qed

lemma EncodeToString_no_newline:
  "c \<in> set (EncodeToString bs) \<Longrightarrow> c \<noteq> CHR 0x0D \<and> c \<noteq> CHR 0x0A"
  by (induction bs rule: EncodeToString.induct)
    (auto simp: Let_def b64_char_props padChar_def)

lemma DecodeString_EncodeToString: "DecodeString (EncodeToString bs) = Some bs"
proof -
  have "filter (\<lambda>c. c \<noteq> CHR 0x0D \<and> c \<noteq> CHR 0x0A) (EncodeToString bs) = EncodeToString bs"
    using EncodeToString_no_newline by (simp add: filter_id_conv)
  then show ?thesis
    by (simp add: DecodeString_def decode_quanta_EncodeToString)
qed

lemma EncodeToString_empty: "EncodeToString bs = [] \<longleftrightarrow> bs = []"
  by (induction bs rule: EncodeToString.induct) (simp_all add: Let_def)

lemma Decode_Encode: "Encode c = Inr token \<Longrightarrow> Decode token = Inr c"
proof -
  assume e: "Encode c = Inr token"
  then obtain b where b: "json_Marshal c = Inr b" "token = EncodeToString b"
    by (auto simp: Encode_def split: sum.splits)
  have "b \<noteq> []"
    using b(1) by (auto simp: json_Marshal_def)
  then have "token \<noteq> []"
    using b(2) by (simp add: EncodeToString_empty)
  then show ?thesis
    using b by (simp add: Decode_def DecodeString_EncodeToString json_Unmarshal_Marshal)
qed

lemma Encode_total: "\<exists>token. Encode c = Inr token"
  by (simp add: Encode_def json_Marshal_def)

subsection \<open>Evaluating the codec on concrete tokens\<close>

lemmas b64_eval =
  DecodeString_def decodeQuantum_def decodeMap_def encodeURL_def padChar_def b64_char_def
  char_of_nat_simps

lemmas strconv_eval =
  ParseUint_def ParseInt_def is_digit_def digits_val_def digit_val_def FormatUint_def FormatInt_def
  digits_of.simps digit_char_def

lemmas codec_eval =
  Encode_def Decode_def json_Marshal_def json_Unmarshal_def json_parse_def maxNestingDepth_def
  scan_number_def scan_frac_def scan_exp_def scan_literal_def zero_Cursor_def
  skip_space_simps is_space_def unescape_def foldName_def to_upper_def b64_eval strconv_eval

section \<open>Properties of the repository and the service\<close>

subsection \<open>The table\<close>

lemma First_None: "First tbl a r = None \<longleftrightarrow> \<not> (\<exists>d \<in> set tbl. ActorID d = a \<and> RecipientID d = r)"
  by (auto simp: First_def find_None_iff)

lemma First_unique:
  assumes "pk_unique tbl" "d \<in> set tbl" "ActorID d = a" "RecipientID d = r"
  shows "First tbl a r = Some d"
proof -
  obtain e where e: "First tbl a r = Some e"
    using assms First_None [of tbl a r] by (cases "First tbl a r") auto
  then have "e \<in> set tbl" "ActorID e = a" "RecipientID e = r"
    by (auto simp: First_def find_Some_iff)
  then have "e = d"
    using assms by (auto simp: pk_unique_def distinct_map inj_on_def)
  with e show ?thesis by simp
qed

subsection \<open>Limits and pages\<close>

lemma sint_succ:
  fixes L :: "64 word"
  assumes "sint L < 2 ^ 63 - 1"
  shows "sint (L + 1) = sint L + 1"
proof -
  have "- (2 ^ 63) \<le> sint L"
    using sint_ge [of L] by simp
  then show ?thesis
    using assms by (simp add: sint_word_ariths signed_take_bit_int_eq_self)
qed

lemma sint_succ_max:
  fixes L :: "64 word"
  assumes "sint L = 2 ^ 63 - 1"
  shows "sint (L + 1) < 0"
proof -
  have "word_of_int (sint L) = L"
    by simp
  then have "L = word_of_int (2 ^ 63 - 1)"
    by (simp only: assms)
  then show ?thesis
    by simp
qed

lemma sint_pred:
  fixes L :: "64 word"
  assumes "0 < sint L"
  shows "sint (L - 1) = sint L - 1"
proof -
  have "sint L < 2 ^ 63"
    using sint_lt [of L] by simp
  then show ?thesis
    using assms by (simp add: sint_word_ariths signed_take_bit_int_eq_self)
qed

lemma set_order_desc [simp]: "set (order_desc rows) = set rows"
  by (simp add: order_desc_def)

lemma length_order_desc [simp]: "length (order_desc rows) = length rows"
  by (simp add: order_desc_def)

lemma set_Limit: "set (Limit n rows) \<subseteq> set rows"
  by (auto simp: Limit_def dest: in_set_takeD)






lemma Decode_absent: "Decode (getString None) = Inr zero_Cursor"
  by (simp add: getString_def Decode_def)

lemma Decode_empty: "Decode [] = Inr zero_Cursor"
  by (simp add: Decode_def)

lemma zero_Cursor_not_given: "\<not> cursor_given zero_Cursor"
  by (simp add: cursor_given_def zero_Cursor_def)

lemma find_rows_not_given:
  "\<not> cursor_given c \<Longrightarrow> find_rows cond tbl c limit = find_rows cond tbl zero_Cursor limit"
  by (simp add: find_rows_def zero_Cursor_not_given)

lemma find_rows_qualifying:
  "find_rows cond tbl c L = Limit (sint (L + 1)) (order_desc (qualifying cond c tbl))"
  by (simp add: find_rows_def qualifying_def Let_def)

lemma page_shape:
  fixes L :: "64 word"
  assumes "0 < sint L" "sint L < 2 ^ 63 - 1"
  shows "\<exists>rows nxt. build_page (find_rows cond tbl c L) L = Inr (rows, nxt)
      \<and> int (length (find_rows cond tbl c L)) \<le> sint L + 1
      \<and> rows = take (nat (sint L)) (order_desc (qualifying cond c tbl))
      \<and> int (length rows) \<le> sint L
      \<and> (nxt \<noteq> None \<longleftrightarrow> sint L + 1 \<le> int (length (qualifying cond c tbl)))
      \<and> (nxt \<noteq> None \<longrightarrow> rows \<noteq> [] \<and>
            Encode \<lparr>CursorActorID = ActorID (last rows),
                    UpdatedUnix = UnixMilli (UpdatedAt (last rows))\<rparr> = Inr (the nxt))
      \<and> (int (length (find_rows cond tbl c L)) < sint L + 1 \<longrightarrow> nxt = None)"
proof -
  define Q where "Q = order_desc (qualifying cond c tbl)"
  define n where "n = nat (sint L)"
  have n: "int n = sint L" "0 < n"
    using assms by (simp_all add: n_def)
  have lq: "length Q = length (qualifying cond c tbl)"
    by (simp add: Q_def)
  have F: "find_rows cond tbl c L = take (Suc n) Q"
    using assms n by (simp add: find_rows_qualifying Limit_def sint_succ Q_def n_def nat_add_distrib)
  have lF: "length (take (Suc n) Q) = min (length Q) (Suc n)"
    by simp
  show ?thesis
  proof (cases "n < length Q")
    case True
    then have lt: "sint L < int (length (take (Suc n) Q))"
      using n by simp
    have i: "sint (L - 1) = int (n - 1)"
      using assms n by (simp add: sint_pred)
    have idx: "\<not> (int (n - 1) < 0 \<or> int (length (take (Suc n) Q)) \<le> int (n - 1))"
      using True n by simp
    have "take n Q \<noteq> []" "length (take n Q) = n"
      using True n by auto
    then have "last (take n Q) = take n Q ! (n - 1)"
      by (simp add: last_conv_nth)
    then have last_eq: "last (take n Q) = take (Suc n) Q ! (n - 1)"
      using n by simp
    obtain token where token: "Encode \<lparr>CursorActorID = ActorID (last (take n Q)),
        UpdatedUnix = UnixMilli (UpdatedAt (last (take n Q)))\<rparr> = Inr token"
      using Encode_total by blast
    have el: "take (Suc n) Q ! nat (sint (L - 1)) = last (take n Q)"
      using last_eq i by simp
    have idx': "\<not> (sint (L - 1) < 0 \<or> int (length (take (Suc n) Q)) \<le> sint (L - 1))"
      using idx i by simp
    have tk: "take (nat (sint L)) (take (Suc n) Q) = take n Q"
      by (simp add: n_def)
    have bp: "build_page (take (Suc n) Q) L = Inr (take n Q, Some token)"
      unfolding build_page_def Let_def
      by (simp only: lt idx' if_True if_False el token tk sum.case)
    have "take n Q \<noteq> []"
      using True n by auto
    then show ?thesis
      using bp True n token lq by (simp add: F Q_def [symmetric] n_def [symmetric])
  next
    case False
    then have le: "\<not> sint L < int (length (take (Suc n) Q))"
      using n by simp
    have bp: "build_page (take (Suc n) Q) L = Inr (take (Suc n) Q, None)"
      using le by (simp add: build_page_def)
    have "take (Suc n) Q = take n Q"
      using False by simp
    then show ?thesis
      using bp False n lq by (simp add: F Q_def [symmetric] n_def [symmetric])
  qed
qed

subsection \<open>The example table\<close>

lemmas table_eval =
  example_table_def decision_def likers_where_def new_likers_where_def passed_def liked_back_def
  find_rows_def build_page_def Limit_def order_desc_def order_key_def cursor_given_def
  cursor_where_def getString_def UnixMilli_def time_UnixMilli_def qualifying_def

lemma token_4_5:
  \<open>Encode \<lparr>CursorActorID = 4, UpdatedUnix = 5\<rparr> = Inr ''eyJhY3Rvcl9pZCI6NCwidXBkYXRlZF91bml4Ijo1fQ==''\<close>
  \<open>Decode ''eyJhY3Rvcl9pZCI6NCwidXBkYXRlZF91bml4Ijo1fQ=='' = Inr \<lparr>CursorActorID = 4, UpdatedUnix = 5\<rparr>\<close>
  by (simp_all add: codec_eval)

lemma token_0_5:
  \<open>Decode ''eyJhY3Rvcl9pZCI6MCwidXBkYXRlZF91bml4Ijo1fQ=='' = Inr \<lparr>CursorActorID = 0, UpdatedUnix = 5\<rparr>\<close>
  by (simp add: codec_eval)

lemma example_first_page:
  \<open>GetLikers example_table 1 None 2 =
     Inr ([decision 5 1 True 5000000, decision 4 1 True 5000000],
          Some ''eyJhY3Rvcl9pZCI6NCwidXBkYXRlZF91bml4Ijo1fQ=='')\<close>
  by (simp add: GetLikers_def Decode_empty zero_Cursor_def table_eval token_4_5)

lemma example_second_page:
  \<open>GetLikers example_table 1 (Some ''eyJhY3Rvcl9pZCI6NCwidXBkYXRlZF91bml4Ijo1fQ=='') 2 =
     Inr ([decision 2 1 True 2000000], None)\<close>
  by (simp add: GetLikers_def token_4_5 table_eval)



subsection \<open>Writes and the mutual check\<close>






text \<open>
  The read-then-write variant of the upsert returns no previous value for a pair without a
  row, and the \<open>liked\<close> of the pair's row as it was before the call otherwise.
\<close>

lemma CreateOrUpdateDecision_prev_returns:
  "(\<not> (\<exists>d \<in> set tbl. ActorID d = a \<and> RecipientID d = r) \<longrightarrow>
      fst (fst (CreateOrUpdateDecision_prev now tbl a r liked)) = None)
   \<and> (pk_unique tbl \<longrightarrow> (\<forall>d \<in> set tbl. ActorID d = a \<and> RecipientID d = r \<longrightarrow>
      fst (fst (CreateOrUpdateDecision_prev now tbl a r liked)) = Some (Liked d)))"
proof (intro conjI impI ballI)
  assume "\<not> (\<exists>d \<in> set tbl. ActorID d = a \<and> RecipientID d = r)"
  then have "First tbl a r = None"
    by (simp add: First_None)
  then show "fst (fst (CreateOrUpdateDecision_prev now tbl a r liked)) = None"
    by (simp add: CreateOrUpdateDecision_prev_def Let_def split: prod.splits option.splits)
next
  fix d
  assume "pk_unique tbl" "d \<in> set tbl" "ActorID d = a \<and> RecipientID d = r"
  then have "First tbl a r = Some d"
    using First_unique by blast
  then show "fst (fst (CreateOrUpdateDecision_prev now tbl a r liked)) = Some (Liked d)"
    by (simp add: CreateOrUpdateDecision_prev_def Let_def split: prod.splits option.splits)
qed

subsection \<open>The shape of a page\<close>

lemma page_contract_holds:
  fixes L :: "64 word"
  assumes "0 < sint L" "sint L < 2 ^ 63 - 1"
  shows "\<exists>rows nxt. build_page (find_rows cond tbl c L) L = Inr (rows, nxt)
      \<and> page_contract cond tbl c L rows nxt"
proof -
  have "set (find_rows cond tbl c L) \<subseteq> set (qualifying cond c tbl)"
    using set_Limit [of "sint (L + 1)" "order_desc (qualifying cond c tbl)"]
    by (simp add: find_rows_qualifying)
  then show ?thesis
    using page_shape [OF assms, of cond tbl c] unfolding page_contract_def
    by (auto simp: min_def)
qed

lemma build_page_nonpositive:
  assumes "sint L \<le> 0" "build_page decisions L = Inr (rows, nxt)"
  shows "rows = []"
proof (cases "sint L < int (length decisions)")
  case True
  then have "rows = take (nat (sint L)) decisions"
    using assms(2) by (auto simp: build_page_def Let_def split: if_splits)
  then show ?thesis
    using assms(1) by simp
next
  case False
  then have "rows = decisions"
    using assms(2) by (auto simp: build_page_def)
  moreover have "int (length decisions) \<le> 0"
    using False assms(1) by linarith
  ultimately show ?thesis
    by simp
qed

text \<open>
  A page size that is not positive: \<open>len(decisions) > limit\<close> holds whenever a row came back,
  and always for a negative limit, and \<open>decisions[limit-1]\<close> is then outside the slice.
\<close>

lemma sint_pred_nonpositive:
  fixes L :: "64 word"
  assumes "sint L \<le> 0" "- (2 ^ 63) < sint L"
  shows "sint (L - 1) = sint L - 1"
  using assms by (simp add: sint_word_ariths signed_take_bit_int_eq_self)

lemma sint_pred_min:
  fixes L :: "64 word"
  assumes "sint L = - (2 ^ 63)"
  shows "sint (L - 1) = 2 ^ 63 - 1"
proof -
  have "word_of_int (sint L) = L"
    by simp
  then have "L = word_of_int (- (2 ^ 63))"
    by (simp only: assms)
  then show ?thesis
    by simp
qed

lemma build_page_negative:
  fixes L :: "64 word"
  assumes "sint L < 0" "- (2 ^ 63) < sint L \<or> int (length decisions) < 2 ^ 63"
  shows "build_page decisions L = Inl PanicIndexOutOfRange"
proof (cases "- (2 ^ 63) < sint L")
  case True
  then have "sint (L - 1) < 0"
    using assms(1) sint_pred_nonpositive [of L] by simp
  moreover have "sint L < int (length decisions)"
    using assms(1) by linarith
  ultimately show ?thesis
    by (simp add: build_page_def Let_def)
next
  case False
  have "- (2 ^ 63) \<le> sint L"
    using sint_ge [of L] by simp
  with False have m: "sint L = - (2 ^ 63)"
    by simp
  have "int (length decisions) \<le> sint (L - 1)"
    using assms(2) False by (simp add: sint_pred_min [OF m])
  moreover have "sint L < int (length decisions)"
    using assms(1) by linarith
  ultimately show ?thesis
    by (simp add: build_page_def Let_def)
qed

lemma build_page_zero:
  "build_page decisions 0 = (if decisions = [] then Inr ([], None) else Inl PanicIndexOutOfRange)"
  by (simp add: build_page_def Let_def)

lemma find_rows_zero_empty:
  "find_rows cond tbl c 0 = [] \<longleftrightarrow> qualifying cond c tbl = []"
proof -
  have "find_rows cond tbl c 0 = take 1 (order_desc (qualifying cond c tbl))"
    by (simp add: find_rows_qualifying Limit_def)
  moreover have "take 1 (order_desc (qualifying cond c tbl)) = [] \<longleftrightarrow> order_desc (qualifying cond c tbl) = []"
    by (cases "order_desc (qualifying cond c tbl)") simp_all
  moreover have "order_desc (qualifying cond c tbl) = [] \<longleftrightarrow> qualifying cond c tbl = []"
    using length_order_desc [of "qualifying cond c tbl"] by (simp only: length_0_conv [symmetric])
  ultimately show ?thesis
    by simp
qed

lemma length_find_rows: "length (find_rows cond tbl c L) \<le> length tbl"
proof -
  have "length (find_rows cond tbl c L) \<le> length (qualifying cond c tbl)"
    by (simp add: find_rows_qualifying Limit_def)
  also have "\<dots> \<le> length tbl"
    by (simp add: qualifying_def)
  finally show ?thesis .
qed

lemma nonpositive_limit:
  fixes L :: "64 word"
  assumes "sint L \<le> 0" "- (2 ^ 63) < sint L \<or> int (length tbl) < 2 ^ 63"
  shows "build_page (find_rows cond tbl c L) L =
     (if sint L = 0 \<and> qualifying cond c tbl = [] then Inr ([], None) else Inl PanicIndexOutOfRange)"
proof (cases "sint L = 0")
  case True
  have "word_of_int (sint L) = L"
    by simp
  then have "L = 0"
    by (simp only: True word_of_int_0)
  then show ?thesis
    by (simp add: build_page_zero find_rows_zero_empty)
next
  case False
  then have neg: "sint L < 0"
    using assms(1) by simp
  have "- (2 ^ 63) < sint L \<or> int (length (find_rows cond tbl c L)) < 2 ^ 63"
    using assms(2) length_find_rows [of cond tbl c L] by linarith
  then have "build_page (find_rows cond tbl c L) L = Inl PanicIndexOutOfRange"
    using neg by (rule build_page_negative [rotated])
  then show ?thesis
    using False by simp
qed

lemma page_of_five:
  "build_page (find_rows cond tbl c 5) 5 = Inr (rows, nxt) \<Longrightarrow> length rows \<le> 5"
  using page_shape [of 5 cond tbl c] by auto

lemma example_page_of_five:
  "GetLikers example_table 1 None 5 =
     Inr ([decision 5 1 True 5000000, decision 4 1 True 5000000, decision 2 1 True 2000000], None)"
  "GetNewLikers example_table 1 None 5 =
     Inr ([decision 5 1 True 5000000, decision 4 1 True 5000000], None)"
  by (simp_all add: GetLikers_def GetNewLikers_def Decode_empty zero_Cursor_def table_eval)

lemma example_no_likers:
  "GetLikers example_table 9 None 0 = Inr ([], None)"
  "GetNewLikers example_table 9 None 0 = Inr ([], None)"
  "qualifying (likers_where example_table 9) zero_Cursor example_table = []"
  by (simp_all add: GetLikers_def GetNewLikers_def Decode_empty zero_Cursor_def table_eval)

lemma example_ListLikedYou:
  "ListLikedYou example_app \<lparr>RecipientUserID = ''1'', PaginationToken = None\<rparr> =
     (Inr (likers_response
        [decision 5 1 True 5000000, decision 4 1 True 5000000, decision 2 1 True 2000000] None),
      example_app\<lparr>calls := [CallGetLikers 1 None 5]\<rparr>)"
  "ListNewLikedYou example_app \<lparr>RecipientUserID = ''1'', PaginationToken = None\<rparr> =
     (Inr (likers_response [decision 5 1 True 5000000, decision 4 1 True 5000000] None),
      example_app\<lparr>calls := [CallGetNewLikers 1 None 5]\<rparr>)"
proof -
  have p: "ParseUint ''1'' = Some 1"
    by (simp add: strconv_eval)
  have d: "DB example_app = example_table" "calls example_app = []"
    by (simp_all add: example_app_def)
  show "ListLikedYou example_app \<lparr>RecipientUserID = ''1'', PaginationToken = None\<rparr> =
     (Inr (likers_response
        [decision 5 1 True 5000000, decision 4 1 True 5000000, decision 2 1 True 2000000] None),
      example_app\<lparr>calls := [CallGetLikers 1 None 5]\<rparr>)"
    by (simp add: ListLikedYou_def p d example_page_of_five)
  show "ListNewLikedYou example_app \<lparr>RecipientUserID = ''1'', PaginationToken = None\<rparr> =
     (Inr (likers_response [decision 5 1 True 5000000, decision 4 1 True 5000000] None),
      example_app\<lparr>calls := [CallGetNewLikers 1 None 5]\<rparr>)"
    by (simp add: ListNewLikedYou_def p d example_page_of_five)
qed

lemma example_likers_of_1:
  "qualifying (likers_where example_table 1) zero_Cursor example_table \<noteq> []"
  "qualifying (new_likers_where example_table 1) zero_Cursor example_table \<noteq> []"
  "qualifying (new_likers_where example_table 9) zero_Cursor example_table = []"
  by (simp_all add: zero_Cursor_def table_eval)

lemma Decode_bang: "Decode (getString (Some ''!'')) = Inl InvalidPaginationToken"
  by (simp add: getString_def Decode_def b64_eval)

subsection \<open>Paging through the likers\<close>

lemma filter_order_desc: "filter P (order_desc xs) = order_desc (filter P xs)"
  by (simp add: order_desc_def rev_filter [symmetric] filter_sort)

lemma order_desc_qualifying:
  "order_desc (qualifying cond c tbl) =
     (if cursor_given c then filter (cursor_where c) (order_desc (filter cond tbl))
      else order_desc (filter cond tbl))"
proof -
  have "qualifying cond c tbl =
      (if cursor_given c then filter (cursor_where c) (filter cond tbl) else filter cond tbl)"
    by (simp add: qualifying_def)
  then show ?thesis
    by (simp add: filter_order_desc)
qed

lemma strictly_descending:
  assumes "distinct (map order_key xs)"
  shows "sorted_wrt (\<lambda>x y. order_key y < order_key x) (order_desc xs)"
proof -
  have "distinct (map order_key (sort_key order_key xs))"
    using assms by (simp add: distinct_map)
  moreover have "sorted (map order_key (sort_key order_key xs))"
    by (rule sorted_sort_key)
  ultimately have "sorted_wrt (<) (map order_key (sort_key order_key xs))"
    by (simp add: strict_sorted_iff)
  then have "sorted_wrt (\<lambda>x y. order_key x < order_key y) (sort_key order_key xs)"
    by (simp add: sorted_wrt_map)
  then show ?thesis
    by (simp add: order_desc_def sorted_wrt_rev)
qed

lemma likers_distinct_keys:
  assumes "pk_unique tbl" "\<And>d. cond d \<Longrightarrow> RecipientID d = R"
  shows "distinct (map ActorID (filter cond tbl))" "distinct (map order_key (filter cond tbl))"
proof -
  have d: "distinct tbl" and inj: "inj_on (\<lambda>d. (ActorID d, RecipientID d)) (set tbl)"
    using assms(1) by (simp_all add: pk_unique_def distinct_map)
  have "inj_on ActorID (set (filter cond tbl))"
  proof (rule inj_onI)
    fix x y
    assume "x \<in> set (filter cond tbl)" "y \<in> set (filter cond tbl)" "ActorID x = ActorID y"
    then have "x \<in> set tbl" "y \<in> set tbl" "(ActorID x, RecipientID x) = (ActorID y, RecipientID y)"
      using assms(2) by auto
    then show "x = y"
      using inj by (meson inj_onD)
  qed
  then show a: "distinct (map ActorID (filter cond tbl))"
    using d by (simp add: distinct_map)
  have "map ActorID (filter cond tbl) = map snd (map order_key (filter cond tbl))"
    by (simp add: order_key_def)
  then show "distinct (map order_key (filter cond tbl))"
    using a by (metis distinct_map)
qed

lemma filter_below:
  fixes key :: "'a \<Rightarrow> 'b :: linorder"
  assumes "sorted_wrt (\<lambda>x y. key y < key x) A" "i < length A"
  shows "filter (\<lambda>d. key d < key (A ! i)) A = drop (Suc i) A"
proof -
  have A: "A = take (Suc i) A @ drop (Suc i) A"
    by simp
  have up: "\<not> key d < key (A ! i)" if "d \<in> set (take (Suc i) A)" for d
  proof -
    have "\<exists>j < length (take (Suc i) A). take (Suc i) A ! j = d"
      using that by (simp only: in_set_conv_nth)
    then obtain j where "j < length (take (Suc i) A)" "take (Suc i) A ! j = d"
      by blast
    then have j: "j < Suc i" "j < length A" "d = A ! j"
      by auto
    show ?thesis
    proof (cases "j = i")
      case True
      with j show ?thesis by simp
    next
      case False
      with j have "j < i" by simp
      then have "key (A ! i) < key (A ! j)"
        using assms sorted_wrt_nth_less by blast
      with j show ?thesis by simp
    qed
  qed
  have down: "key d < key (A ! i)" if "d \<in> set (drop (Suc i) A)" for d
  proof -
    have "\<exists>j < length (drop (Suc i) A). drop (Suc i) A ! j = d"
      using that by (simp only: in_set_conv_nth)
    then obtain j where "j < length (drop (Suc i) A)" "drop (Suc i) A ! j = d"
      by blast
    then have j: "j < length A - Suc i" "d = drop (Suc i) A ! j"
      by auto
    then have "d = A ! (Suc i + j)" "Suc i + j < length A" "i < Suc i + j"
      by simp_all
    then show ?thesis
      using assms sorted_wrt_nth_less by blast
  qed
  have "filter (\<lambda>d. key d < key (A ! i)) A =
      filter (\<lambda>d. key d < key (A ! i)) (take (Suc i) A) @ filter (\<lambda>d. key d < key (A ! i)) (drop (Suc i) A)"
    by (subst A) (simp only: filter_append)
  also have "filter (\<lambda>d. key d < key (A ! i)) (take (Suc i) A) = []"
    using up by (simp add: filter_empty_conv)
  also have "filter (\<lambda>d. key d < key (A ! i)) (drop (Suc i) A) = drop (Suc i) A"
    using down by (simp add: filter_id_conv)
  finally show ?thesis
    by simp
qed

lemma build_page_of_prefix:
  fixes L :: "64 word"
  assumes L: "0 < sint L"
    and F: "take (nat (sint L)) F = take (nat (sint L)) Q"
      "nat (sint L) < length F \<longleftrightarrow> nat (sint L) < length Q"
      "nat (sint L) < length Q \<longrightarrow> F ! (nat (sint L) - 1) = Q ! (nat (sint L) - 1)"
      "\<not> nat (sint L) < length Q \<longrightarrow> F = Q"
  shows "build_page F L =
     (if nat (sint L) < length Q
      then Inr (take (nat (sint L)) Q,
                Some (case Encode \<lparr>CursorActorID = ActorID (Q ! (nat (sint L) - 1)),
                                    UpdatedUnix = UnixMilli (UpdatedAt (Q ! (nat (sint L) - 1)))\<rparr> of
                        Inl err \<Rightarrow> [] | Inr t \<Rightarrow> t))
      else Inr (Q, None))"
proof (cases "nat (sint L) < length Q")
  case True
  then have lt: "sint L < int (length F)"
    using F(2) L by linarith
  have i: "sint (L - 1) = sint L - 1"
    using L by (rule sint_pred)
  have n1: "nat (sint (L - 1)) = nat (sint L) - 1"
    by (simp add: i nat_diff_distrib')
  have idx: "\<not> (sint (L - 1) < 0 \<or> int (length F) \<le> sint (L - 1))"
    using lt L by (simp add: i)
  have el: "F ! nat (sint (L - 1)) = Q ! (nat (sint L) - 1)"
    using F(3) True by (simp only: n1)
  show ?thesis
    unfolding build_page_def Let_def
    by (simp only: lt idx if_True if_False el F(1) True)
next
  case False
  then have "F = Q" "\<not> sint L < int (length Q)"
    using F(4) L by simp_all
  then show ?thesis
    using False by (simp add: build_page_def)
qed

lemma page_result:
  fixes L :: "64 word"
  assumes L: "0 < sint L"
  shows "build_page (find_rows cond tbl c L) L =
     (if nat (sint L) < length (order_desc (qualifying cond c tbl))
      then Inr (take (nat (sint L)) (order_desc (qualifying cond c tbl)),
                Some (case Encode
                        \<lparr>CursorActorID = ActorID (order_desc (qualifying cond c tbl) ! (nat (sint L) - 1)),
                         UpdatedUnix = UnixMilli (UpdatedAt (order_desc (qualifying cond c tbl) ! (nat (sint L) - 1)))\<rparr> of
                        Inl err \<Rightarrow> [] | Inr t \<Rightarrow> t))
      else Inr (order_desc (qualifying cond c tbl), None))"
proof -
  define Q where "Q = order_desc (qualifying cond c tbl)"
  define n where "n = nat (sint L)"
  have n: "0 < n"
    using L by (simp add: n_def)
  have "find_rows cond tbl c L = take (Suc n) Q \<or> find_rows cond tbl c L = Q"
  proof (cases "sint L < 2 ^ 63 - 1")
    case True
    then have "sint (L + 1) = sint L + 1"
      by (rule sint_succ)
    then have "find_rows cond tbl c L = take (Suc n) Q"
      using L by (simp add: find_rows_qualifying Limit_def Q_def n_def nat_add_distrib)
    then show ?thesis ..
  next
    case False
    have "sint L < 2 ^ 63"
      using sint_lt [of L] by simp
    with False have "sint L = 2 ^ 63 - 1"
      by simp
    then have "sint (L + 1) < 0"
      by (rule sint_succ_max)
    then have "find_rows cond tbl c L = Q"
      by (simp add: find_rows_qualifying Limit_def Q_def)
    then show ?thesis ..
  qed
  then have F: "take n (find_rows cond tbl c L) = take n Q"
      "n < length (find_rows cond tbl c L) \<longleftrightarrow> n < length Q"
      "n < length Q \<longrightarrow> find_rows cond tbl c L ! (n - 1) = Q ! (n - 1)"
      "\<not> n < length Q \<longrightarrow> find_rows cond tbl c L = Q"
    using n by (auto simp: min_def split: if_splits)
  show ?thesis
    using build_page_of_prefix [OF L F [unfolded n_def]] by (simp only: Q_def)
qed

lemma UnixMilli_safe:
  assumes "cursor_safe r"
  shows "time_UnixMilli (UnixMilli (UpdatedAt r)) = UpdatedAt r"
    "0 < sint (UnixMilli (UpdatedAt r))" "0 < ActorID r"
proof -
  define k where "k = UpdatedAt r div 1000000"
  have t: "UpdatedAt r = k * 1000000"
    using assms div_mult_mod_eq [of "UpdatedAt r" 1000000] by (simp add: k_def cursor_safe_def)
  have "0 < UpdatedAt r"
    using assms by (simp add: cursor_safe_def)
  then have "0 < k * 1000000"
    by (simp only: t)
  then have k0: "0 < k"
    by simp
  have "k < 2 ^ 63"
    using assms by (simp add: k_def cursor_safe_def)
  note k = k0 this
  have s: "sint (word_of_int k :: 64 word) = k"
    using k by (simp add: signed_of_int signed_take_bit_int_eq_self)
  show "time_UnixMilli (UnixMilli (UpdatedAt r)) = UpdatedAt r"
    by (simp add: time_UnixMilli_def UnixMilli_def k_def [symmetric] s t)
  show "0 < sint (UnixMilli (UpdatedAt r))"
    using k by (simp add: UnixMilli_def k_def [symmetric] s)
  show "0 < ActorID r"
    using assms by (simp add: cursor_safe_def word_greater_zero_iff)
qed

lemma cursor_of_row:
  assumes "cursor_safe r"
  shows "cursor_given \<lparr>CursorActorID = ActorID r, UpdatedUnix = UnixMilli (UpdatedAt r)\<rparr>"
    "cursor_where \<lparr>CursorActorID = ActorID r, UpdatedUnix = UnixMilli (UpdatedAt r)\<rparr> d
       \<longleftrightarrow> order_key d < order_key r"
  using UnixMilli_safe [OF assms]
  by (auto simp: cursor_given_def cursor_where_def order_key_def Let_def)

lemma likers_step:
  fixes L :: "64 word"
  assumes pk: "pk_unique tbl" and L: "0 < sint L"
    and safe: "\<forall>d \<in> set tbl. likers_where tbl R d \<longrightarrow> cursor_safe d"
    and dec: "Decode (getString tok) = Inr c"
    and inv: "order_desc (qualifying (likers_where tbl R) c tbl) =
        drop k (order_desc (filter (likers_where tbl R) tbl))"
  shows "if nat (sint L) < length (order_desc (filter (likers_where tbl R) tbl)) - k
     then \<exists>t c'. GetLikers tbl R tok L =
            Inr (take (nat (sint L)) (drop k (order_desc (filter (likers_where tbl R) tbl))), Some t)
          \<and> Decode (getString (Some t)) = Inr c'
          \<and> order_desc (qualifying (likers_where tbl R) c' tbl) =
              drop (k + nat (sint L)) (order_desc (filter (likers_where tbl R) tbl))
     else GetLikers tbl R tok L = Inr (drop k (order_desc (filter (likers_where tbl R) tbl)), None)"
proof -
  define A where "A = order_desc (filter (likers_where tbl R) tbl)"
  define n where "n = nat (sint L)"
  have n: "0 < n"
    using L by (simp add: n_def)
  have G: "GetLikers tbl R tok L =
     (if n < length (drop k A)
      then Inr (take n (drop k A),
                Some (case Encode \<lparr>CursorActorID = ActorID (drop k A ! (n - 1)),
                                    UpdatedUnix = UnixMilli (UpdatedAt (drop k A ! (n - 1)))\<rparr> of
                        Inl err \<Rightarrow> [] | Inr t \<Rightarrow> t))
      else Inr (drop k A, None))"
    unfolding GetLikers_def dec sum.case page_result [OF L] inv A_def n_def ..
  show ?thesis
  proof (cases "n < length A - k")
    case False
    then show ?thesis
      using G by (simp add: A_def [symmetric] n_def [symmetric])
  next
    case True
    define r where "r = A ! (k + (n - 1))"
    have idx: "k + (n - 1) < length A"
      using True n by simp
    have r_eq: "drop k A ! (n - 1) = r"
      using idx by (simp add: r_def)
    have "r \<in> set A"
      using idx by (simp add: r_def)
    then have "r \<in> set tbl" "likers_where tbl R r"
      by (simp_all add: A_def)
    then have sr: "cursor_safe r"
      using safe by blast
    obtain t where t: "Encode \<lparr>CursorActorID = ActorID r, UpdatedUnix = UnixMilli (UpdatedAt r)\<rparr> = Inr t"
      using Encode_total by blast
    have d': "Decode (getString (Some t)) = Inr \<lparr>CursorActorID = ActorID r, UpdatedUnix = UnixMilli (UpdatedAt r)\<rparr>"
      using Decode_Encode [OF t] by (simp add: getString_def)
    have "RecipientID d = R" if "likers_where tbl R d" for d
      using that by (simp add: likers_where_def)
    then have "distinct (map order_key (filter (likers_where tbl R) tbl))"
      using likers_distinct_keys(2) [OF pk] by blast
    then have sd: "sorted_wrt (\<lambda>x y. order_key y < order_key x) A"
      unfolding A_def by (rule strictly_descending)
    have cw: "cursor_where \<lparr>CursorActorID = ActorID r, UpdatedUnix = UnixMilli (UpdatedAt r)\<rparr>
        = (\<lambda>d. order_key d < order_key r)"
      by (rule ext) (simp add: cursor_of_row(2) [OF sr])
    have "order_desc (qualifying (likers_where tbl R)
            \<lparr>CursorActorID = ActorID r, UpdatedUnix = UnixMilli (UpdatedAt r)\<rparr> tbl)
        = filter (\<lambda>d. order_key d < order_key r) A"
      using cursor_of_row(1) [OF sr]
      by (simp add: order_desc_qualifying A_def [symmetric] cw)
    also have "\<dots> = drop (Suc (k + (n - 1))) A"
      unfolding r_def using sd idx by (rule filter_below)
    also have "Suc (k + (n - 1)) = k + n"
      using n by simp
    finally have inv': "order_desc (qualifying (likers_where tbl R)
            \<lparr>CursorActorID = ActorID r, UpdatedUnix = UnixMilli (UpdatedAt r)\<rparr> tbl) = drop (k + n) A" .
    have c: "n < length (drop k A)"
      using True by simp
    have "GetLikers tbl R tok L = Inr (take n (drop k A), Some t)"
      using G by (simp only: c if_True r_eq t sum.case)
    then show ?thesis
      using True d' inv' unfolding A_def [symmetric] n_def [symmetric] by auto
  qed
qed

lemma page_through_rest:
  fixes L :: "64 word"
  assumes pk: "pk_unique tbl" and L: "0 < sint L"
    and safe: "\<forall>d \<in> set tbl. likers_where tbl R d \<longrightarrow> cursor_safe d"
    and A: "A = order_desc (filter (likers_where tbl R) tbl)"
  shows "Decode (getString tok) = Inr c \<Longrightarrow>
     order_desc (qualifying (likers_where tbl R) c tbl) = drop k A \<Longrightarrow>
     length A - k < fuel \<Longrightarrow>
     page_through fuel tbl R L tok = Some (drop k A)"
proof (induction fuel arbitrary: tok c k)
  case 0
  then show ?case by simp
next
  case (Suc fuel)
  have n: "0 < nat (sint L)"
    using L by simp
  note step = likers_step [OF pk L safe Suc.prems(1) Suc.prems(2) [unfolded A], folded A]
  show ?case
  proof (cases "nat (sint L) < length A - k")
    case False
    then have "GetLikers tbl R tok L = Inr (drop k A, None)"
      using step by simp
    then show ?thesis
      by simp
  next
    case True
    then obtain t c' where t: "GetLikers tbl R tok L = Inr (take (nat (sint L)) (drop k A), Some t)"
      "Decode (getString (Some t)) = Inr c'"
      "order_desc (qualifying (likers_where tbl R) c' tbl) = drop (k + nat (sint L)) A"
      using step by auto
    have "length A - (k + nat (sint L)) < fuel"
      using True n Suc.prems(3) by linarith
    then have "page_through fuel tbl R L (Some t) = Some (drop (k + nat (sint L)) A)"
      using Suc.IH [OF t(2) t(3)] by simp
    moreover have "take (nat (sint L)) (drop k A) @ drop (k + nat (sint L)) A = drop k A"
      by (metis add.commute append_take_drop_id drop_drop)
    ultimately show ?thesis
      using t(1) by simp
  qed
qed

lemma page_through_likers:
  fixes L :: "64 word"
  assumes pk: "pk_unique tbl" and L: "0 < sint L"
    and safe: "\<forall>d \<in> set tbl. likers_where tbl R d \<longrightarrow> cursor_safe d"
    and fuel: "length (filter (likers_where tbl R) tbl) < fuel"
  shows "page_through fuel tbl R L None = Some (order_desc (filter (likers_where tbl R) tbl))"
proof -
  define A where "A = order_desc (filter (likers_where tbl R) tbl)"
  have "order_desc (qualifying (likers_where tbl R) zero_Cursor tbl) = drop 0 A"
    by (simp add: order_desc_qualifying zero_Cursor_not_given A_def)
  moreover have "length A - 0 < fuel"
    using fuel by (simp add: A_def)
  ultimately have "page_through fuel tbl R L None = Some (drop 0 A)"
    using page_through_rest [OF pk L safe A_def Decode_absent] by blast
  then show ?thesis
    by (simp add: A_def)
qed

lemma likers_in_order:
  assumes pk: "pk_unique tbl"
  shows "distinct (map ActorID (order_desc (filter (likers_where tbl R) tbl)))"
    "sorted_wrt (\<lambda>x y. UpdatedAt y < UpdatedAt x \<or> (UpdatedAt y = UpdatedAt x \<and> ActorID y < ActorID x))
       (order_desc (filter (likers_where tbl R) tbl))"
proof -
  have r: "RecipientID d = R" if "likers_where tbl R d" for d
    using that by (simp add: likers_where_def)
  have "distinct (map ActorID (filter (likers_where tbl R) tbl))"
    using likers_distinct_keys(1) [OF pk] r by blast
  then have "distinct (filter (likers_where tbl R) tbl)"
      "inj_on ActorID (set (filter (likers_where tbl R) tbl))"
    by (simp_all add: distinct_map)
  then show "distinct (map ActorID (order_desc (filter (likers_where tbl R) tbl)))"
    by (simp add: distinct_map order_desc_def)
  have "distinct (map order_key (filter (likers_where tbl R) tbl))"
    using likers_distinct_keys(2) [OF pk] r by blast
  then have "sorted_wrt (\<lambda>x y. order_key y < order_key x) (order_desc (filter (likers_where tbl R) tbl))"
    by (rule strictly_descending)
  moreover have "order_key y < order_key x \<longleftrightarrow>
      UpdatedAt y < UpdatedAt x \<or> (UpdatedAt y = UpdatedAt x \<and> ActorID y < ActorID x)" for x y :: Decision
    by (auto simp: order_key_def)
  ultimately show "sorted_wrt (\<lambda>x y. UpdatedAt y < UpdatedAt x \<or> (UpdatedAt y = UpdatedAt x \<and> ActorID y < ActorID x))
       (order_desc (filter (likers_where tbl R) tbl))"
    by simp
qed

lemma example_safe:
  "pk_unique example_table" "\<forall>d \<in> set example_table. likers_where example_table 1 d \<longrightarrow> cursor_safe d"
  "length (filter (likers_where example_table 1) example_table) = 3"
  "CountLikers example_table 1 = 3"
  by (simp_all add: pk_unique_def cursor_safe_def CountLikers_def table_eval)

lemma example_paging:
  "page_through 4 example_table 1 2 None =
     Some [decision 5 1 True 5000000, decision 4 1 True 5000000, decision 2 1 True 2000000]"
  by (simp add: eval_nat_numeral example_first_page example_second_page)

lemma token_0_2:
  \<open>Encode \<lparr>CursorActorID = 0, UpdatedUnix = 2\<rparr> = Inr ''eyJhY3Rvcl9pZCI6MCwidXBkYXRlZF91bml4IjoyfQ==''\<close>
  \<open>Decode ''eyJhY3Rvcl9pZCI6MCwidXBkYXRlZF91bml4IjoyfQ=='' = Inr \<lparr>CursorActorID = 0, UpdatedUnix = 2\<rparr>\<close>
  by (simp_all add: codec_eval)

lemma zero_actor_pages:
  \<open>GetLikers zero_actor_table 9 None 1 =
     Inr ([decision 0 9 True 2000000], Some ''eyJhY3Rvcl9pZCI6MCwidXBkYXRlZF91bml4IjoyfQ=='')\<close>
  \<open>GetLikers zero_actor_table 9 (Some ''eyJhY3Rvcl9pZCI6MCwidXBkYXRlZF91bml4IjoyfQ=='') 1 =
     Inr ([decision 0 9 True 2000000], Some ''eyJhY3Rvcl9pZCI6MCwidXBkYXRlZF91bml4IjoyfQ=='')\<close>
  by (simp_all add: GetLikers_def Decode_empty zero_Cursor_def token_0_2 zero_actor_table_def
      table_eval)

section \<open>The claims\<close>

text \<open>
  Claim C8, as amended. For every cursor \<open>c\<close>, \<open>Encode\<close> succeeds and \<open>Decode\<close> of its
  token returns \<open>c\<close>; \<open>Decode\<close> of the empty string returns the zero cursor; and \<open>Decode\<close>
  of a non-empty token returns the invalid-token error exactly when the token is not padded
  URL-safe base64 or its bytes are not JSON that unmarshals into a \<open>Cursor\<close>. What unmarshals
  is wider than the objects \<open>Encode\<close> writes: the JSON text \<open>null\<close> does, to the zero cursor.
\<close>

theorem C8_codec_round_trip:
  "(\<exists>token. Encode c = Inr token \<and> Decode token = Inr c)
   \<and> Decode [] = Inr zero_Cursor
   \<and> (tok \<noteq> [] \<longrightarrow>
        (Decode tok = Inl InvalidPaginationToken \<longleftrightarrow>
           (DecodeString tok = None \<or> (\<exists>b. DecodeString tok = Some b \<and> json_Unmarshal b = None))))"
proof -
  obtain token where "Encode c = Inr token"
    using Encode_total by blast
  then have "\<exists>token. Encode c = Inr token \<and> Decode token = Inr c"
    using Decode_Encode by blast
  moreover have "Decode [] = Inr zero_Cursor"
    by (simp add: Decode_def)
  moreover have "tok \<noteq> [] \<longrightarrow>
        (Decode tok = Inl InvalidPaginationToken \<longleftrightarrow>
           (DecodeString tok = None \<or> (\<exists>b. DecodeString tok = Some b \<and> json_Unmarshal b = None)))"
    by (auto simp: Decode_def split: option.splits)
  ultimately show ?thesis
    by blast
qed

text \<open>
  The theorem at the cursor of the README's example token, and at that token cut short,
  which is no base64 any more.
\<close>

theorem C8_codec_round_trip_witness:
  \<open>Encode \<lparr>CursorActorID = 9, UpdatedUnix = 1758473077\<rparr> =
     Inr ''eyJhY3Rvcl9pZCI6OSwidXBkYXRlZF91bml4IjoxNzU4NDczMDc3fQ==''
   \<and> Decode ''eyJhY3Rvcl9pZCI6OSwidXBkYXRlZF91bml4IjoxNzU4NDczMDc3fQ=='' =
       Inr \<lparr>CursorActorID = 9, UpdatedUnix = 1758473077\<rparr>
   \<and> ''eyJhY3Rvcl9pZCI6OSwidXBkYXRlZF9'' \<noteq> []
   \<and> DecodeString ''eyJhY3Rvcl9pZCI6OSwidXBkYXRlZF9'' = None
   \<and> Decode ''eyJhY3Rvcl9pZCI6OSwidXBkYXRlZF9'' = Inl InvalidPaginationToken\<close>
proof -
  have e: \<open>Encode \<lparr>CursorActorID = 9, UpdatedUnix = 1758473077\<rparr> =
     Inr ''eyJhY3Rvcl9pZCI6OSwidXBkYXRlZF91bml4IjoxNzU4NDczMDc3fQ==''\<close>
    by (simp add: codec_eval)
  have d: \<open>DecodeString ''eyJhY3Rvcl9pZCI6OSwidXBkYXRlZF9'' = None\<close>
    by (simp add: b64_eval)
  show ?thesis
    using C8_codec_round_trip [of "\<lparr>CursorActorID = 9, UpdatedUnix = 1758473077\<rparr>"
        \<open>''eyJhY3Rvcl9pZCI6OSwidXBkYXRlZF9''\<close>] e d
    by auto
qed

text \<open>
  Claim C8 as stated fails: this token is valid base64 of the JSON text \<open>null\<close>, which is
  no JSON object, and \<open>Decode\<close> accepts it.
\<close>

theorem C8_null_token_counterexample:
  \<open>DecodeString ''bnVsbA=='' = Some ''null''
   \<and> json_parse ''null'' = Some JNull
   \<and> Decode ''bnVsbA=='' = Inr zero_Cursor\<close>
proof -
  have d: \<open>DecodeString ''bnVsbA=='' = Some ''null''\<close>
    by (simp add: b64_eval)
  have p: \<open>json_parse ''null'' = Some JNull\<close>
    by (simp add: codec_eval)
  show ?thesis
    by (simp add: d p Decode_def json_Unmarshal_def)
qed

text \<open>
  Claim C7, as amended. The upsert the service calls returns an error and nothing else, and
  with a database that carries out the statement no error: what it returns is the same for
  every table, so it tells neither whether the pair had a row nor what \<open>liked\<close> that row
  held. The previous
  value is overwritten, not returned: a pair without a row gets the row \<open>(a, r, liked)\<close>
  stamped with the time of the call, appended to the table; a pair with a row has the
  \<open>liked\<close> of that row set and every other column and row left as it was.
\<close>

theorem C7_upsert_returns_only_error:
  "fst (CreateOrUpdateDecision now tbl a r liked) = None
   \<and> fst (CreateOrUpdateDecision now tbl a r liked) = fst (CreateOrUpdateDecision now' tbl' a r liked)
   \<and> (\<not> (\<exists>d \<in> set tbl. ActorID d = a \<and> RecipientID d = r) \<longrightarrow>
        snd (CreateOrUpdateDecision now tbl a r liked) =
          tbl @ [\<lparr>ActorID = a, RecipientID = r, Liked = liked, CreatedAt = now, UpdatedAt = now\<rparr>])
   \<and> ((\<exists>d \<in> set tbl. ActorID d = a \<and> RecipientID d = r) \<longrightarrow>
        snd (CreateOrUpdateDecision now tbl a r liked) =
          map (\<lambda>d. if ActorID d = a \<and> RecipientID d = r then d\<lparr>Liked := liked\<rparr> else d) tbl)"
  by (simp add: CreateOrUpdateDecision_def insert_on_conflict_def same_pk_def assign_liked_def Let_def)

theorem C7_upsert_returns_only_error_witness:
  "fst (CreateOrUpdateDecision 2000000 [decision 1 2 True 1000000] 3 4 True) = None
   \<and> \<not> (\<exists>d \<in> set [decision 1 2 True 1000000]. ActorID d = 3 \<and> RecipientID d = 4)
   \<and> snd (CreateOrUpdateDecision 2000000 [decision 1 2 True 1000000] 3 4 True) =
       [decision 1 2 True 1000000, decision 3 4 True 2000000]
   \<and> fst (CreateOrUpdateDecision 2000000 [decision 1 2 True 1000000] 1 2 False) = None
   \<and> (\<exists>d \<in> set [decision 1 2 True 1000000]. ActorID d = 1 \<and> RecipientID d = 2)
   \<and> snd (CreateOrUpdateDecision 2000000 [decision 1 2 True 1000000] 1 2 False) =
       [decision 1 2 False 1000000]"
  using C7_upsert_returns_only_error [of 2000000 "[decision 1 2 True 1000000]" 3 4 True]
    C7_upsert_returns_only_error [of 2000000 "[decision 1 2 True 1000000]" 1 2 False]
  by (simp add: decision_def)

text \<open>
  Claim C7 as stated fails for the upsert the service calls. User 1 passes user 2 at 2 ms:
  the call returns the same, no error and no value, when user 1 had liked user 2 before,
  when user 1 had passed user 2 before, and when user 1 had not decided on user 2.
\<close>

theorem C7_no_previous_value_counterexample:
  "fst (CreateOrUpdateDecision 2000000 [decision 1 2 True 1000000] 1 2 False) = None
   \<and> fst (CreateOrUpdateDecision 2000000 [decision 1 2 False 1000000] 1 2 False) = None
   \<and> fst (CreateOrUpdateDecision 2000000 [] 1 2 False) = None"
  by (simp add: CreateOrUpdateDecision_def Let_def)

text \<open>
  Claim C1 at a failing input. User 1 liked user 2 at 1 ms; at 2 ms user 1 passes user 2.
  The upsert the service calls overwrites \<open>liked\<close> and leaves \<open>updated_at\<close> at 1 ms; the
  upsert of the seeding code, which also assigns \<open>updated_at\<close>, moves it to 2 ms.
\<close>

theorem C1_updated_at_not_bumped:
  "CreateOrUpdateDecision 2000000 [decision 1 2 True 1000000] 1 2 False =
     (None, [\<lparr>ActorID = 1, RecipientID = 2, Liked = False, CreatedAt = 1000000, UpdatedAt = 1000000\<rparr>])
   \<and> insert_on_conflict assign_liked_updated_at (decision 1 2 False 2000000) [decision 1 2 True 1000000] =
     [\<lparr>ActorID = 1, RecipientID = 2, Liked = False, CreatedAt = 1000000, UpdatedAt = 2000000\<rparr>]"
  by (simp add: CreateOrUpdateDecision_def insert_on_conflict_def same_pk_def assign_liked_def
      assign_liked_updated_at_def decision_def)



text \<open>
  Claim C10. A non-empty token that decodes to a cursor with actor 0 or with a
  non-positive \<open>updated_unix\<close> gives the page the absent token gives, in both list queries.
\<close>

theorem C10_guarded_cursor_restarts:
  "tok \<noteq> [] \<longrightarrow> Decode tok = Inr c \<longrightarrow> (CursorActorID c = 0 \<or> sint (UpdatedUnix c) \<le> 0) \<longrightarrow>
     GetLikers tbl R (Some tok) L = GetLikers tbl R None L
     \<and> GetNewLikers tbl R (Some tok) L = GetNewLikers tbl R None L"
proof (intro impI)
  assume "tok \<noteq> []" and d: "Decode tok = Inr c"
    and "CursorActorID c = 0 \<or> sint (UpdatedUnix c) \<le> 0"
  then have "\<not> cursor_given c"
    by (auto simp: cursor_given_def)
  then have "find_rows cond tbl c L = find_rows cond tbl zero_Cursor L" for cond
    by (rule find_rows_not_given)
  then show "GetLikers tbl R (Some tok) L = GetLikers tbl R None L
     \<and> GetNewLikers tbl R (Some tok) L = GetNewLikers tbl R None L"
    using d by (simp add: GetLikers_def GetNewLikers_def getString_def Decode_empty)
qed

theorem C10_guarded_cursor_restarts_witness:
  \<open>''eyJhY3Rvcl9pZCI6MCwidXBkYXRlZF91bml4Ijo1fQ=='' \<noteq> []
   \<and> Decode ''eyJhY3Rvcl9pZCI6MCwidXBkYXRlZF91bml4Ijo1fQ=='' = Inr \<lparr>CursorActorID = 0, UpdatedUnix = 5\<rparr>
   \<and> GetLikers example_table 1 (Some ''eyJhY3Rvcl9pZCI6MCwidXBkYXRlZF91bml4Ijo1fQ=='') 2 =
       Inr ([decision 5 1 True 5000000, decision 4 1 True 5000000],
            Some ''eyJhY3Rvcl9pZCI6NCwidXBkYXRlZF91bml4Ijo1fQ=='')
   \<and> GetNewLikers example_table 1 (Some ''eyJhY3Rvcl9pZCI6MCwidXBkYXRlZF91bml4Ijo1fQ=='') 2 =
       GetNewLikers example_table 1 None 2\<close>
  using C10_guarded_cursor_restarts [of \<open>''eyJhY3Rvcl9pZCI6MCwidXBkYXRlZF91bml4Ijo1fQ==''\<close>
      "\<lparr>CursorActorID = 0, UpdatedUnix = 5\<rparr>" example_table 1 2]
    token_0_5 example_first_page
  by simp



text \<open>
  Claim C4. For a page size \<open>L\<close> with \<open>0 < L\<close> that \<open>L + 1\<close> does not overflow, and a token
  that decodes to the cursor \<open>c\<close>, both list queries succeed with a page that meets the
  pagination contract: at most \<open>L + 1\<close> qualifying rows fetched, at most \<open>L\<close> returned, a
  token exactly when an \<open>(L+1)\<close>-th qualifying row exists, the token the encoding of the
  actor and the millisecond timestamp of the last row returned, and no token when fewer
  than \<open>L + 1\<close> rows were fetched.
\<close>

theorem C4_page_limits:
  "0 < sint L \<longrightarrow> sint L < 2 ^ 63 - 1 \<longrightarrow> Decode (getString tok) = Inr c \<longrightarrow>
     (\<exists>rows nxt. GetLikers tbl R tok L = Inr (rows, nxt)
        \<and> page_contract (likers_where tbl R) tbl c L rows nxt)
     \<and> (\<exists>rows nxt. GetNewLikers tbl R tok L = Inr (rows, nxt)
        \<and> page_contract (new_likers_where tbl R) tbl c L rows nxt)"
  using page_contract_holds [of L "likers_where tbl R" tbl c]
    page_contract_holds [of L "new_likers_where tbl R" tbl c]
  by (simp add: GetLikers_def GetNewLikers_def)

theorem C4_page_limits_witness:
  \<open>0 < sint (2 :: 64 word) \<and> sint (2 :: 64 word) < 2 ^ 63 - 1
   \<and> Decode (getString None) = Inr zero_Cursor
   \<and> GetLikers example_table 1 None 2 =
       Inr ([decision 5 1 True 5000000, decision 4 1 True 5000000],
            Some ''eyJhY3Rvcl9pZCI6NCwidXBkYXRlZF91bml4Ijo1fQ=='')
   \<and> page_contract (likers_where example_table 1) example_table zero_Cursor 2
        [decision 5 1 True 5000000, decision 4 1 True 5000000]
        (Some ''eyJhY3Rvcl9pZCI6NCwidXBkYXRlZF91bml4Ijo1fQ=='')
   \<and> length (qualifying (likers_where example_table 1) zero_Cursor example_table) = 3\<close>
proof -
  have q: "length (qualifying (likers_where example_table 1) zero_Cursor example_table) = 3"
    by (simp add: table_eval zero_Cursor_def)
  show ?thesis
    using C4_page_limits [of 2 None zero_Cursor example_table 1] example_first_page Decode_absent q
    by auto
qed

text \<open>
  Claim C9, as amended. The repository does not validate the page size. Take a call of
  \<open>GetLikers\<close> or \<open>GetNewLikers\<close> with a limit \<open>L \<le> 0\<close>, on a table of fewer than \<open>2^63\<close> rows
  when \<open>L\<close> is the least \<open>int\<close>. If the token decodes, the call returns the empty page and no
  token when \<open>L = 0\<close> and no row qualifies, and panics at \<open>decisions[limit-1]\<close> in every
  other case, producing no page. If the token does not decode, the call returns the
  decoding error, for any limit. In no case is the limit turned into a positive one: a
  call with \<open>L \<le> 0\<close> that returns a page returns an empty one. The handlers \<open>ListLikedYou\<close>
  and \<open>ListNewLikedYou\<close> ask the repository for pages of the fixed size 5, whatever the
  request, and answer with at most 5 likers.
\<close>

theorem C9_limit_not_validated:
  "(sint L \<le> 0 \<longrightarrow> Decode (getString tok) = Inr c \<longrightarrow>
      (- (2 ^ 63) < sint L \<or> int (length tbl) < 2 ^ 63) \<longrightarrow>
        GetLikers tbl R tok L =
          (if sint L = 0 \<and> qualifying (likers_where tbl R) c tbl = []
           then Inr ([], None) else Inl PanicIndexOutOfRange)
        \<and> GetNewLikers tbl R tok L =
          (if sint L = 0 \<and> qualifying (new_likers_where tbl R) c tbl = []
           then Inr ([], None) else Inl PanicIndexOutOfRange))
   \<and> (Decode (getString tok) = Inl err \<longrightarrow>
        GetLikers tbl R tok L = Inl err \<and> GetNewLikers tbl R tok L = Inl err)
   \<and> (sint L \<le> 0 \<longrightarrow> GetLikers tbl R tok L = Inr (rows, nxt) \<longrightarrow> rows = [])
   \<and> (sint L \<le> 0 \<longrightarrow> GetNewLikers tbl R tok L = Inr (rows', nxt') \<longrightarrow> rows' = [])
   \<and> (ListLikedYou app req = (Inr resp, app') \<longrightarrow>
         length (Likers resp) \<le> 5
         \<and> (\<exists>rid. calls app' = calls app @ [CallGetLikers rid (PaginationToken req) 5]))
   \<and> (ListNewLikedYou app req = (Inr resp', app'') \<longrightarrow>
         length (Likers resp') \<le> 5
         \<and> (\<exists>rid. calls app'' = calls app @ [CallGetNewLikers rid (PaginationToken req) 5]))"
proof -
  have p: "GetLikers tbl R tok L =
          (if sint L = 0 \<and> qualifying (likers_where tbl R) c tbl = []
           then Inr ([], None) else Inl PanicIndexOutOfRange)
        \<and> GetNewLikers tbl R tok L =
          (if sint L = 0 \<and> qualifying (new_likers_where tbl R) c tbl = []
           then Inr ([], None) else Inl PanicIndexOutOfRange)"
    if "sint L \<le> 0" "Decode (getString tok) = Inr c"
      "- (2 ^ 63) < sint L \<or> int (length tbl) < 2 ^ 63"
    using nonpositive_limit [OF that(1) that(3), of "likers_where tbl R" c]
      nonpositive_limit [OF that(1) that(3), of "new_likers_where tbl R" c]
    by (simp add: GetLikers_def GetNewLikers_def that(2))
  have f: "GetLikers tbl R tok L = Inl err \<and> GetNewLikers tbl R tok L = Inl err"
    if "Decode (getString tok) = Inl err"
    using that by (simp add: GetLikers_def GetNewLikers_def)
  have a: "rows = []" if "sint L \<le> 0" "GetLikers tbl R tok L = Inr (rows, nxt)"
    using that by (auto simp: GetLikers_def split: sum.splits dest: build_page_nonpositive)
  have b: "rows' = []" if "sint L \<le> 0" "GetNewLikers tbl R tok L = Inr (rows', nxt')"
    using that by (auto simp: GetNewLikers_def split: sum.splits dest: build_page_nonpositive)
  have d: "length (Likers resp) \<le> 5
         \<and> (\<exists>rid. calls app' = calls app @ [CallGetLikers rid (PaginationToken req) 5])"
    if "ListLikedYou app req = (Inr resp, app')"
    using that
    by (auto simp: ListLikedYou_def GetLikers_def Let_def likers_response_def
        split: option.splits sum.splits prod.splits dest: page_of_five)
  have e: "length (Likers resp') \<le> 5
         \<and> (\<exists>rid. calls app'' = calls app @ [CallGetNewLikers rid (PaginationToken req) 5])"
    if "ListNewLikedYou app req = (Inr resp', app'')"
    using that
    by (auto simp: ListNewLikedYou_def GetNewLikers_def Let_def likers_response_def
        split: option.splits sum.splits prod.splits dest: page_of_five)
  show ?thesis
    using p f a b d e by blast
qed

theorem C9_limit_not_validated_witness:
  "sint (- 1 :: 64 word) \<le> 0
   \<and> Decode (getString None) = Inr zero_Cursor
   \<and> - (2 ^ 63) < sint (- 1 :: 64 word)
   \<and> GetLikers example_table 1 None (- 1) = Inl PanicIndexOutOfRange
   \<and> GetNewLikers example_table 1 None (- 1) = Inl PanicIndexOutOfRange
   \<and> sint (0 :: 64 word) \<le> 0
   \<and> - (2 ^ 63) < sint (0 :: 64 word)
   \<and> qualifying (likers_where example_table 1) zero_Cursor example_table \<noteq> []
   \<and> qualifying (new_likers_where example_table 1) zero_Cursor example_table \<noteq> []
   \<and> GetLikers example_table 1 None 0 = Inl PanicIndexOutOfRange
   \<and> GetNewLikers example_table 1 None 0 = Inl PanicIndexOutOfRange
   \<and> qualifying (likers_where example_table 9) zero_Cursor example_table = []
   \<and> qualifying (new_likers_where example_table 9) zero_Cursor example_table = []
   \<and> GetLikers example_table 9 None 0 = Inr ([], None)
   \<and> GetNewLikers example_table 9 None 0 = Inr ([], None)
   \<and> Decode (getString (Some ''!'')) = Inl InvalidPaginationToken
   \<and> GetLikers example_table 1 (Some ''!'') 0 = Inl InvalidPaginationToken
   \<and> GetNewLikers example_table 1 (Some ''!'') 0 = Inl InvalidPaginationToken
   \<and> ListLikedYou example_app \<lparr>RecipientUserID = ''1'', PaginationToken = None\<rparr> =
       (Inr (likers_response
          [decision 5 1 True 5000000, decision 4 1 True 5000000, decision 2 1 True 2000000] None),
        example_app\<lparr>calls := [CallGetLikers 1 None 5]\<rparr>)
   \<and> length (Likers (likers_response
          [decision 5 1 True 5000000, decision 4 1 True 5000000, decision 2 1 True 2000000] None)) \<le> 5
   \<and> ListNewLikedYou example_app \<lparr>RecipientUserID = ''1'', PaginationToken = None\<rparr> =
       (Inr (likers_response [decision 5 1 True 5000000, decision 4 1 True 5000000] None),
        example_app\<lparr>calls := [CallGetNewLikers 1 None 5]\<rparr>)
   \<and> length (Likers (likers_response [decision 5 1 True 5000000, decision 4 1 True 5000000] None)) \<le> 5"
proof -
  have neg: "GetLikers example_table 1 None (- 1) = Inl PanicIndexOutOfRange
      \<and> GetNewLikers example_table 1 None (- 1) = Inl PanicIndexOutOfRange"
    using C9_limit_not_validated [where L = "- 1" and tok = None
        and c = zero_Cursor and tbl = example_table and R = 1, THEN conjunct1]
    by (simp add: Decode_absent)
  have zero: "GetLikers example_table 1 None 0 = Inl PanicIndexOutOfRange
      \<and> GetNewLikers example_table 1 None 0 = Inl PanicIndexOutOfRange"
    using C9_limit_not_validated [where L = 0 and tok = None
        and c = zero_Cursor and tbl = example_table and R = 1, THEN conjunct1]
    by (simp add: Decode_absent example_likers_of_1)
  have none: "GetLikers example_table 9 None 0 = Inr ([], None)
      \<and> GetNewLikers example_table 9 None 0 = Inr ([], None)"
    using C9_limit_not_validated [where L = 0 and tok = None
        and c = zero_Cursor and tbl = example_table and R = 9, THEN conjunct1]
    by (simp add: Decode_absent example_no_likers example_likers_of_1)
  have bad: "GetLikers example_table 1 (Some ''!'') 0 = Inl InvalidPaginationToken
      \<and> GetNewLikers example_table 1 (Some ''!'') 0 = Inl InvalidPaginationToken"
    using C9_limit_not_validated [where L = 0 and tok = "Some ''!''"
        and err = InvalidPaginationToken and tbl = example_table and R = 1,
        THEN conjunct2, THEN conjunct1]
    by (simp add: Decode_bang)
  have five: "length (Likers (likers_response
          [decision 5 1 True 5000000, decision 4 1 True 5000000, decision 2 1 True 2000000] None)) \<le> 5
      \<and> length (Likers (likers_response [decision 5 1 True 5000000, decision 4 1 True 5000000] None)) \<le> 5"
    using C9_limit_not_validated [where app = example_app
        and req = "\<lparr>RecipientUserID = ''1'', PaginationToken = None\<rparr>"
        and resp = "likers_response
          [decision 5 1 True 5000000, decision 4 1 True 5000000, decision 2 1 True 2000000] None"
        and app' = "example_app\<lparr>calls := [CallGetLikers 1 None 5]\<rparr>"
        and resp' = "likers_response [decision 5 1 True 5000000, decision 4 1 True 5000000] None"
        and app'' = "example_app\<lparr>calls := [CallGetNewLikers 1 None 5]\<rparr>"
        and L = 0 and tbl = example_table and R = 9 and tok = None
        and rows = "[]" and nxt = None and rows' = "[]" and nxt' = None and c = zero_Cursor
        and err = InvalidPaginationToken]
      example_ListLikedYou
    by simp
  show ?thesis
    using neg zero none bad five
    by (simp add: Decode_absent Decode_bang example_likers_of_1 example_no_likers example_ListLikedYou)
qed

text \<open>
  Claim C9 as stated fails: with limit 0 and an empty table \<open>GetLikers\<close> returns a page
  and no error.
\<close>

theorem C9_empty_page_counterexample:
  "GetLikers [] 1 None 0 = Inr ([], None)"
  by (simp add: GetLikers_def Decode_absent find_rows_def Limit_def order_desc_def build_page_def)

text \<open>
  Claim C3, as amended. Take a table that meets its primary key, a recipient all of whose
  qualifying likers have an actor id other than 0 and an \<open>updated_at\<close> that is a whole,
  strictly positive number of milliseconds fitting \<open>int64\<close>, and a page size \<open>K > 0\<close>. Then
  paging \<open>GetLikers\<close> from the absent token through the tokens returned reaches the end
  within \<open>N + 1\<close> calls, \<open>N\<close> the number of qualifying likers, and the pages together are
  exactly the \<open>N\<close> qualifying rows: no actor twice, none left out, in strictly descending
  order of \<open>(updated_at, actor_id)\<close>.
\<close>

theorem C3_paging_complete:
  "pk_unique tbl \<longrightarrow> 0 < sint K \<longrightarrow>
   (\<forall>d \<in> set tbl. likers_where tbl R d \<longrightarrow> cursor_safe d) \<longrightarrow>
     (\<exists>rows.
        (\<forall>fuel. length (filter (likers_where tbl R) tbl) < fuel \<longrightarrow>
           page_through fuel tbl R K None = Some rows)
        \<and> length rows = length (filter (likers_where tbl R) tbl)
        \<and> set rows = {d \<in> set tbl. likers_where tbl R d}
        \<and> distinct (map ActorID rows)
        \<and> sorted_wrt (\<lambda>x y. UpdatedAt y < UpdatedAt x
                            \<or> (UpdatedAt y = UpdatedAt x \<and> ActorID y < ActorID x)) rows)"
proof (intro impI)
  assume pk: "pk_unique tbl" and K: "0 < sint K"
    and safe: "\<forall>d \<in> set tbl. likers_where tbl R d \<longrightarrow> cursor_safe d"
  define rows where "rows = order_desc (filter (likers_where tbl R) tbl)"
  have "\<forall>fuel. length (filter (likers_where tbl R) tbl) < fuel \<longrightarrow>
           page_through fuel tbl R K None = Some rows"
    using page_through_likers [OF pk K safe] by (simp add: rows_def)
  moreover have "length rows = length (filter (likers_where tbl R) tbl)"
    "set rows = {d \<in> set tbl. likers_where tbl R d}"
    by (simp_all add: rows_def)
  moreover have "distinct (map ActorID rows)"
    "sorted_wrt (\<lambda>x y. UpdatedAt y < UpdatedAt x
                            \<or> (UpdatedAt y = UpdatedAt x \<and> ActorID y < ActorID x)) rows"
    unfolding rows_def using likers_in_order [OF pk] by blast+
  ultimately show "\<exists>rows.
        (\<forall>fuel. length (filter (likers_where tbl R) tbl) < fuel \<longrightarrow>
           page_through fuel tbl R K None = Some rows)
        \<and> length rows = length (filter (likers_where tbl R) tbl)
        \<and> set rows = {d \<in> set tbl. likers_where tbl R d}
        \<and> distinct (map ActorID rows)
        \<and> sorted_wrt (\<lambda>x y. UpdatedAt y < UpdatedAt x
                            \<or> (UpdatedAt y = UpdatedAt x \<and> ActorID y < ActorID x)) rows"
    by blast
qed

theorem C3_paging_complete_witness:
  "pk_unique example_table \<and> 0 < sint (2 :: 64 word)
   \<and> cursor_safe (decision 5 1 True 5000000) \<and> cursor_safe (decision 4 1 True 5000000)
   \<and> cursor_safe (decision 2 1 True 2000000)
   \<and> length (filter (likers_where example_table 1) example_table) = 3
   \<and> page_through 4 example_table 1 2 None =
       Some [decision 5 1 True 5000000, decision 4 1 True 5000000, decision 2 1 True 2000000]
   \<and> set [decision 5 1 True 5000000, decision 4 1 True 5000000, decision 2 1 True 2000000] =
       {d \<in> set example_table. likers_where example_table 1 d}
   \<and> distinct (map ActorID
        [decision 5 1 True 5000000, decision 4 1 True 5000000, decision 2 1 True 2000000])"
proof -
  have s: "0 < sint (2 :: 64 word)"
    by simp
  obtain rows where rows:
    "\<forall>fuel. length (filter (likers_where example_table 1) example_table) < fuel \<longrightarrow>
       page_through fuel example_table 1 2 None = Some rows"
    "set rows = {d \<in> set example_table. likers_where example_table 1 d}"
    "distinct (map ActorID rows)"
    using C3_paging_complete [of example_table 2 1] example_safe(1,2) s by blast
  have "page_through 4 example_table 1 2 None = Some rows"
    using rows(1) example_safe(3) by simp
  then have "rows = [decision 5 1 True 5000000, decision 4 1 True 5000000, decision 2 1 True 2000000]"
    using example_paging by simp
  then show ?thesis
    using rows(2,3) example_safe(1,3) example_paging
    by (simp add: cursor_safe_def decision_def)
qed

text \<open>
  Claim C3 as stated fails. User 0 is the most recent of the two likers of user 9; with
  pages of one row the first page is user 0 and its token is the cursor \<open>(0, 2 ms)\<close>,
  which the guard of \<open>GetLikers\<close> takes for no cursor: the call with that token returns the
  same page and the same token, and user 1, a qualifying liker, is never reached.
\<close>

theorem C3_zero_actor_counterexample:
  \<open>GetLikers zero_actor_table 9 None 1 =
     Inr ([decision 0 9 True 2000000], Some ''eyJhY3Rvcl9pZCI6MCwidXBkYXRlZF91bml4IjoyfQ=='')
   \<and> GetLikers zero_actor_table 9 (Some ''eyJhY3Rvcl9pZCI6MCwidXBkYXRlZF91bml4IjoyfQ=='') 1 =
     Inr ([decision 0 9 True 2000000], Some ''eyJhY3Rvcl9pZCI6MCwidXBkYXRlZF91bml4IjoyfQ=='')
   \<and> likers_where zero_actor_table 9 (decision 1 9 True 1000000)
   \<and> pk_unique zero_actor_table\<close>
  by (simp add: zero_actor_pages) (simp add: zero_actor_table_def pk_unique_def table_eval)

text \<open>
  Claim C6, as amended. Under the conditions of claim C3 as amended, paging \<open>GetLikers\<close>
  to the end needs at most one call more than \<open>CountLikers\<close> counts, and the number of rows
  it collects is what \<open>CountLikers\<close> returns.
\<close>

theorem C6_count_is_enumeration:
  "pk_unique tbl \<longrightarrow> 0 < sint K \<longrightarrow>
   (\<forall>d \<in> set tbl. likers_where tbl R d \<longrightarrow> cursor_safe d) \<longrightarrow>
     (\<exists>rows.
        (\<forall>fuel. CountLikers tbl R < int fuel \<longrightarrow> page_through fuel tbl R K None = Some rows)
        \<and> CountLikers tbl R = int (length rows))"
proof (intro impI)
  assume pk: "pk_unique tbl" and K: "0 < sint K"
    and safe: "\<forall>d \<in> set tbl. likers_where tbl R d \<longrightarrow> cursor_safe d"
  have "\<forall>fuel. CountLikers tbl R < int fuel \<longrightarrow>
      page_through fuel tbl R K None = Some (order_desc (filter (likers_where tbl R) tbl))"
    using page_through_likers [OF pk K safe] by (simp add: CountLikers_def)
  moreover have "CountLikers tbl R = int (length (order_desc (filter (likers_where tbl R) tbl)))"
    by (simp add: CountLikers_def)
  ultimately show "\<exists>rows.
        (\<forall>fuel. CountLikers tbl R < int fuel \<longrightarrow> page_through fuel tbl R K None = Some rows)
        \<and> CountLikers tbl R = int (length rows)"
    by blast
qed

theorem C6_count_is_enumeration_witness:
  "pk_unique example_table \<and> 0 < sint (2 :: 64 word)
   \<and> cursor_safe (decision 5 1 True 5000000) \<and> cursor_safe (decision 4 1 True 5000000)
   \<and> cursor_safe (decision 2 1 True 2000000)
   \<and> page_through 4 example_table 1 2 None =
       Some [decision 5 1 True 5000000, decision 4 1 True 5000000, decision 2 1 True 2000000]
   \<and> CountLikers example_table 1 =
       int (length [decision 5 1 True 5000000, decision 4 1 True 5000000, decision 2 1 True 2000000])"
proof -
  have s: "0 < sint (2 :: 64 word)"
    by simp
  obtain rows where rows:
    "\<forall>fuel. CountLikers example_table 1 < int fuel \<longrightarrow>
       page_through fuel example_table 1 2 None = Some rows"
    "CountLikers example_table 1 = int (length rows)"
    using C6_count_is_enumeration [of example_table 2 1] example_safe(1,2) s by blast
  have "page_through 4 example_table 1 2 None = Some rows"
    using rows(1) example_safe(4) by simp
  then have "rows = [decision 5 1 True 5000000, decision 4 1 True 5000000, decision 2 1 True 2000000]"
    using example_paging by simp
  then show ?thesis
    using rows(2) example_safe(1) example_paging
    by (simp add: cursor_safe_def decision_def)
qed

text \<open>
  Claim C6 as stated fails on the same table: \<open>CountLikers\<close> counts 2 likers of user 9,
  and paging by one row has not reached the end after 5 calls.
\<close>

theorem C6_zero_actor_counterexample:
  "CountLikers zero_actor_table 9 = 2
   \<and> page_through 5 zero_actor_table 9 1 None = None"
proof -
  have "CountLikers zero_actor_table 9 = 2"
    by (simp add: CountLikers_def zero_actor_table_def table_eval)
  moreover have "page_through 5 zero_actor_table 9 1 None = None"
    by (simp add: eval_nat_numeral zero_actor_pages)
  ultimately show ?thesis
    by simp
qed

end
